theory Spec2Isabelle
  imports Main
begin

section \<open>Text, character classes and patterns\<close>

text \<open>
  The four scripts repair source text with Python's \<^verbatim>\<open>re.sub(pattern, repl, content)\<close>.
  A text is a \<^typ>\<open>string\<close>; a \<^typ>\<open>char\<close> stands for the code point of the same
  number (0 to 255). The patterns of the scripts use literal characters, the classes
  \<^verbatim>\<open>\w\<close> and \<^verbatim>\<open>\s\<close>, bracket classes, the greedy quantifiers \<^verbatim>\<open>*\<close> and
  \<^verbatim>\<open>+\<close> on a single character class, and numbered groups; they use no alternation,
  no lazy quantifier, no anchor and no unescaped dot.
\<close>

datatype cclass =
    Ch char          \<comment> \<open>a literal character\<close>
  | OneOf string     \<comment> \<open>a bracket class, its members listed\<close>
  | NoneOf string    \<comment> \<open>a negated bracket class\<close>
  | Word             \<comment> \<open>\<^verbatim>\<open>\w\<close>\<close>
  | Space            \<comment> \<open>\<^verbatim>\<open>\s\<close>\<close>

definition is_word :: "char \<Rightarrow> bool" where
  \<comment> \<open>\<^verbatim>\<open>\w\<close> of a str pattern: alphanumeric code points and the underscore\<close>
  "is_word c =
     (let n = (of_char c :: nat) in
        (48 \<le> n \<and> n \<le> 57) \<or> (65 \<le> n \<and> n \<le> 90) \<or> n = 95 \<or> (97 \<le> n \<and> n \<le> 122) \<or>
        n = 170 \<or> n = 178 \<or> n = 179 \<or> n = 181 \<or> n = 185 \<or> n = 186 \<or>
        (188 \<le> n \<and> n \<le> 190) \<or> (192 \<le> n \<and> n \<le> 214) \<or> (216 \<le> n \<and> n \<le> 246) \<or>
        248 \<le> n)"

definition is_space :: "char \<Rightarrow> bool" where
  \<comment> \<open>\<^verbatim>\<open>\s\<close> of a str pattern: the whitespace code points\<close>
  "is_space c =
     (let n = (of_char c :: nat) in
        (9 \<le> n \<and> n \<le> 13) \<or> (28 \<le> n \<and> n \<le> 32) \<or> n = 133 \<or> n = 160)"

fun accepts :: "cclass \<Rightarrow> char \<Rightarrow> bool" where
  "accepts (Ch c) x = (x = c)"
| "accepts (OneOf cs) x = (x \<in> set cs)"
| "accepts (NoneOf cs) x = (x \<notin> set cs)"
| "accepts Word x = is_word x"
| "accepts Space x = is_space x"

text \<open>
  A pattern is the sequence of its items, in the order of the pattern string. \<open>Open n\<close>
  and \<open>Close n\<close> are the parentheses of group \<open>n\<close>. \<^verbatim>\<open>c+\<close> is \<open>One c\<close> followed by
  \<open>Star c\<close>.
\<close>

datatype item = One cclass | Star cclass | Open nat | Close nat

type_synonym pattern = "item list"

definition lit :: "string \<Rightarrow> pattern" where
  "lit s = map (\<lambda>c. One (Ch c)) s"

definition plus :: "cclass \<Rightarrow> pattern" where
  "plus c = [One c, Star c]"

definition grp :: "nat \<Rightarrow> pattern \<Rightarrow> pattern" where
  "grp n p = Open n # p @ [Close n]"

section \<open>Matching at a position\<close>

text \<open>
  \<open>rmatch p s\<close> matches \<open>p\<close> at the start of \<open>s\<close> the way the backtracking matcher does:
  a starred class first takes as many characters as it can and gives them back one at a
  time while the rest of the pattern fails. The result is the text each item consumed
  (one segment per item) and the unconsumed rest.
\<close>

type_synonym rmatch_result = "(string list \<times> string) option"

definition skip :: "rmatch_result \<Rightarrow> rmatch_result" where
  "skip m = map_option (\<lambda>(segs, r). ([] # segs, r)) m"

definition take1 :: "char \<Rightarrow> rmatch_result \<Rightarrow> rmatch_result" where
  "take1 x m = map_option (\<lambda>(segs, r). ([x] # segs, r)) m"

fun grow :: "char \<Rightarrow> string list \<times> string \<Rightarrow> string list \<times> string" where
  "grow x (seg # segs, r) = ((x # seg) # segs, r)"
| "grow x ([], r) = ([[x]], r)"

fun rmatch :: "pattern \<Rightarrow> string \<Rightarrow> rmatch_result" where
  "rmatch [] s = Some ([], s)"
| "rmatch (Open n # p) s = skip (rmatch p s)"
| "rmatch (Close n # p) s = skip (rmatch p s)"
| "rmatch (One c # p) [] = None"
| "rmatch (One c # p) (x # xs) = (if accepts c x then take1 x (rmatch p xs) else None)"
| "rmatch (Star c # p) [] = skip (rmatch p [])"
| "rmatch (Star c # p) (x # xs) =
     (if accepts c x
      then (case rmatch (Star c # p) xs of
              Some m \<Rightarrow> Some (grow x m)
            | None \<Rightarrow> skip (rmatch p (x # xs)))
      else skip (rmatch p (x # xs)))"

text \<open>The text of group \<open>n\<close>: what the items between \<open>Open n\<close> and \<open>Close n\<close> consumed.\<close>

fun capture :: "nat \<Rightarrow> bool \<Rightarrow> pattern \<Rightarrow> string list \<Rightarrow> string" where
  "capture n inside (it # p) (seg # segs) =
     (if it = Open n then capture n True p segs
      else if it = Close n then []
      else (if inside then seg else []) @ capture n inside p segs)"
| "capture n inside _ _ = []"

text \<open>A replacement template: literal text and group references \<^verbatim>\<open>\1\<close>, \<^verbatim>\<open>\2\<close>, ...\<close>

datatype piece = Txt string | Ref nat

type_synonym template = "piece list"

fun expand :: "pattern \<Rightarrow> string list \<Rightarrow> template \<Rightarrow> string" where
  "expand p segs [] = []"
| "expand p segs (Txt t # tpl) = t @ expand p segs tpl"
| "expand p segs (Ref n # tpl) = capture n False p segs @ expand p segs tpl"

section \<open>Global substitution\<close>

text \<open>
  \<open>sub p tpl s\<close> is \<^verbatim>\<open>re.sub(p, tpl, s)\<close>: the text is scanned from the left, the first
  position where the pattern matches is replaced by the expanded template, and the scan
  resumes at the end of the match (the matched length is dropped from the text). A position
  where nothing matches is copied. After an empty match the next character is copied; the
  item language has no alternative non-empty match at a position where its first match is
  empty.
\<close>

fun sub :: "pattern \<Rightarrow> template \<Rightarrow> string \<Rightarrow> string" where
  "sub p tpl [] =
     (case rmatch p [] of
        Some (segs, r) \<Rightarrow> expand p segs tpl
      | None \<Rightarrow> [])"
| "sub p tpl (x # xs) =
     (case rmatch p (x # xs) of
        Some (segs, r) \<Rightarrow>
          if concat segs = []
          then expand p segs tpl @ x # sub p tpl xs
          else expand p segs tpl @ sub p tpl (drop (length (concat segs) - 1) xs)
      | None \<Rightarrow> x # sub p tpl xs)"

type_synonym rule = "pattern \<times> template"

fun apply_rules :: "rule list \<Rightarrow> string \<Rightarrow> string" where
  "apply_rules [] s = s"
| "apply_rules ((p, tpl) # rs) s = apply_rules rs (sub p tpl s)"

section \<open>The rule table of simple-fix\<close>

abbreviation squote :: char where "squote \<equiv> CHR 0x27"
abbreviation dquote :: char where "dquote \<equiv> CHR 0x22"

definition ident_start :: string where
  "ident_start = ''abcdefghijklmnopqrstuvwxyzABCDEFGHIJKLMNOPQRSTUVWXYZ_''"

definition ident_rest :: string where
  "ident_rest = ''abcdefghijklmnopqrstuvwxyzABCDEFGHIJKLMNOPQRSTUVWXYZ0123456789_''"

text \<open>The list \<^verbatim>\<open>replacements\<close> of \<^verbatim>\<open>fix_file\<close>, in its order.\<close>

definition replacements :: "rule list" where
  "replacements =
   [ (lit '' =, '', [Txt '' => '']),
     (lit ''('' @ grp 1 [Star (NoneOf '')'')] @ lit '' > '' @ grp 2 [Star (NoneOf '')'')] @ lit '')'',
        [Txt ''('', Ref 1, Txt '', '', Ref 2, Txt '')'']),
     (lit '': '' @ grp 1 [Star (NoneOf ''>'')] @ lit '' > ''
          @ grp 2 ([One (OneOf ident_start), Star (OneOf ident_rest)] @ lit '':''),
        [Txt '': '', Ref 1, Txt '', '', Ref 2]),
     (lit (squote # '' > ''), [Txt (squote # '', '')]),
     (lit (dquote # '' > ''), [Txt (dquote # '', '')]),
     (lit '' > }'', [Txt '', }'']),
     (lit '' > ]'', [Txt '', ]'']),
     (lit '' > )'', [Txt '', )'']),
     (lit (''on('' @ [squote]) @ grp 1 [Star (NoneOf [squote])] @ lit (squote # '' > ''),
        [Txt (''on('' @ [squote]), Ref 1, Txt (squote # '', '')]),
     (lit (''handle('' @ [squote]) @ grp 1 [Star (NoneOf [squote])] @ lit (squote # '' > ''),
        [Txt (''handle('' @ [squote]), Ref 1, Txt (squote # '', '')]),
     (lit ''string > '', [Txt ''string, '']),
     (lit ''number > '', [Txt ''number, '']),
     (lit ''boolean > '', [Txt ''boolean, '']),
     (lit ''unknown > '', [Txt ''unknown, '']),
     (lit '', = '', [Txt '' >= '']),
     (lit ''[] >'', [Txt ''[0] >'']),
     (lit ''[])'', [Txt ''[0])'']),
     (lit ''[];'', [Txt ''[0];'']),
     (lit ''[] || '', [Txt ''[0] || '']),
     (lit ''[].value'', [Txt ''[0].value'']),
     (lit ''Record<string > unknown>'', [Txt ''Record<string, unknown>'']),
     (lit '': (): void =>'', [Txt '': () => '']),
     (lit ''get:, (): void =>'', [Txt ''get: () => '']),
     (lit ''set: newData => {;'', [Txt ''set: newData => {'']),
     (lit ''} > timeout'', [Txt ''}, timeout'']),
     (lit ''Platform[0]'', [Txt ''Platform[]'']),
     (lit ''Song[0]'', [Txt ''Song[]'']),
     (lit ''string[0]'', [Txt ''string[]'']),
     (lit '': number =, '', [Txt '': number = '']),
     (lit '': string =, '', [Txt '': string = '']),
     (lit '': boolean =, '', [Txt '': boolean = '']),
     (lit ''watch( () => '', [Txt ''watch(() => '']),
     (lit ''{ data:, '', [Txt ''{ data: '']),
     (lit ''>=, '', [Txt ''>= '']),
     (lit ''<=, '', [Txt ''<= '']),
     (lit ''>, '', [Txt ''> '']),
     (lit ''<, '', [Txt ''< '']),
     (lit ''+, '', [Txt ''+ '']),
     (lit ''-, '', [Txt ''- '']),
     (lit ''*, '', [Txt ''* '']),
     (lit ''/, '', [Txt ''/ '']) ]"

definition simple_fix :: "string \<Rightarrow> string" where
  \<comment> \<open>the loop \<^verbatim>\<open>for pattern, replacement in replacements: content = re.sub(...)\<close>\<close>
  "simple_fix content = apply_rules replacements content"

section \<open>The rules of smart-fix\<close>

text \<open>
  \<^verbatim>\<open>fix_typescript_syntax\<close> is a sequence of \<^verbatim>\<open>content = re.sub(...)\<close> statements;
  the list holds their patterns and replacements in the order of the statements.
\<close>

definition typescript_rules :: "rule list" where
  "typescript_rules =
   [ \<comment> \<open>1\<close>
     (lit ''('' @ grp 1 [Star (NoneOf '')'')] @ lit '':,'' @ [Star Space]
          @ grp 2 [Star (NoneOf '')'')] @ lit '')'',
        [Txt ''('', Ref 1, Txt '': '', Ref 2, Txt '')'']),
     \<comment> \<open>2\<close>
     (grp 1 (plus Word) @ lit '':,'' @ [Star Space] @ grp 2 (plus Word),
        [Ref 1, Txt '': '', Ref 2]),
     \<comment> \<open>3\<close>
     (lit ''=>>'', [Txt ''=>'']),
     (lit ''=>'', [Txt ''=>'']),
     \<comment> \<open>4\<close>
     (lit ''watch('' @ [Star Space] @ lit ''()'' @ [Star Space] @ lit ''=>'' @ [Star Space]
          @ grp 1 (plus (NoneOf '')'')) @ lit ''()'',
        [Txt ''watch(() => '', Ref 1, Txt '', '']),
     (lit ''watch('' @ [Star Space] @ grp 1 (plus (NoneOf '')'')) @ lit ''()'' @ [Star Space]
          @ lit ''=>'',
        [Txt ''watch('', Ref 1, Txt '', '']),
     \<comment> \<open>5\<close>
     (lit ''{'' @ [Star Space] @ lit '','', [Txt ''{'']),
     (lit '':'' @ [Star Space] @ lit ''():'' @ [Star Space] @ lit ''void'' @ [Star Space]
          @ lit ''=>'',
        [Txt '': () =>'']),
     \<comment> \<open>6\<close>
     (grp 1 (plus Word) @ lit ''[0]'', [Ref 1, Txt ''[]'']),
     \<comment> \<open>7\<close>
     (lit ''>=>'', [Txt ''>='']),
     (lit ''<=>'', [Txt ''<='']),
     \<comment> \<open>8\<close>
     (lit ''i'' @ [Star Space] @ lit ''+=>'', [Txt ''i +='']),
     \<comment> \<open>9\<close>
     (lit ''('' @ [Star Space] @ grp 1 (plus (NoneOf '',)'')) @ lit '','' @ [Star Space]
          @ grp 2 (plus (NoneOf '')'')) @ [Star Space] @ lit '')'',
        [Txt ''('', Ref 1, Txt '', '', Ref 2, Txt '')'']),
     \<comment> \<open>10\<close>
     (lit ''catch'' @ [Star Space] @ lit ''('' @ [Star Space] @ grp 1 (plus Word) @ lit '':,''
          @ [Star Space] @ grp 2 (plus Word) @ [Star Space] @ lit '')'',
        [Txt ''catch ('', Ref 1, Txt '': '', Ref 2, Txt '')'']),
     \<comment> \<open>11\<close>
     (lit ''inject<('' @ [Star (NoneOf '')'')] @ lit ''|,'' @ [Star Space]
          @ grp 1 [Star (NoneOf '')'')] @ lit '')'',
        [Txt ''inject<('', Ref 1, Txt '')'']),
     \<comment> \<open>12\<close>
     (lit ''?'' @ [Star Space] @ grp 1 (plus (NoneOf '':'')) @ [Star Space] @ lit '':,''
          @ [Star Space] @ grp 2 (plus (NoneOf '')'')) @ lit '')'',
        [Txt ''? '', Ref 1, Txt '' : '', Ref 2, Txt '')'']),
     \<comment> \<open>13\<close>
     (lit ''const'' @ [Star Space] @ lit ''{'' @ [Star Space] @ grp 1 (plus (NoneOf '':''))
          @ lit '':,'' @ [Star Space] @ grp 2 (plus (NoneOf ''}'')) @ [Star Space] @ lit ''}'',
        [Txt ''const { '', Ref 1, Txt '': '', Ref 2, Txt '' }'']),
     \<comment> \<open>14\<close>
     (lit ''='' @ [Star Space] @ lit ''[0];'', [Txt ''= [];'']),
     \<comment> \<open>15\<close>
     (lit ''):'' @ [Star Space] @ grp 1 (plus Word) @ [Star Space] @ lit ''=>'',
        [Txt ''): '', Ref 1, Txt '' =>'']) ]"

definition fix_typescript_syntax :: "string \<Rightarrow> string" where
  "fix_typescript_syntax content = apply_rules typescript_rules content"

definition vue_rules :: "rule list" where
  "vue_rules =
   [ (lit ''watch('' @ [Star Space] @ lit ''()'' @ [Star Space] @ lit ''=>'' @ [Star Space]
          @ grp 1 (plus (NoneOf ''('')) @ lit ''('' @ grp 2 [Star (NoneOf '')'')] @ lit '')''
          @ [Star Space] @ lit ''=>'',
        [Txt ''watch(() => '', Ref 1, Txt '', ('', Ref 2, Txt '') =>'']),
     (lit ''(e:,'' @ [Star Space] @ grp 1 (plus (NoneOf '')'')) @ lit ''):'' @ [Star Space]
          @ lit ''void;'',
        [Txt ''(e: '', Ref 1, Txt ''): void;'']),
     (lit ''computed(()'' @ [Star Space] @ lit ''=>'' @ [Star Space] @ lit ''(''
          @ grp 1 [Star (NoneOf '')'')] @ [Star Space] @ lit ''?'' @ [Star Space]
          @ grp 2 [Star (NoneOf '':'')] @ [Star Space] @ lit '':,'' @ [Star Space]
          @ grp 3 [Star (NoneOf '')'')] @ lit '')'',
        [Txt ''computed(() => ('', Ref 1, Txt '' ? '', Ref 2, Txt '' : '', Ref 3, Txt '')'']) ]"

definition fix_vue_syntax :: "string \<Rightarrow> string" where
  "fix_vue_syntax content = apply_rules vue_rules content"

definition endswith :: "string \<Rightarrow> string \<Rightarrow> bool" where
  \<comment> \<open>\<^verbatim>\<open>s.endswith(suffix)\<close>\<close>
  "endswith s suffix = (length suffix \<le> length s \<and> drop (length s - length suffix) s = suffix)"

definition smart_fix :: "string \<Rightarrow> string \<Rightarrow> string" where
  \<comment> \<open>what \<^verbatim>\<open>fix_file\<close> of smart-fix computes from the content read at \<open>file_path\<close>\<close>
  "smart_fix file_path content =
     (let content = fix_typescript_syntax content
      in if endswith file_path ''.vue'' then fix_vue_syntax content else content)"

section \<open>The rules of final-precise-fix\<close>

definition precise_rules :: "rule list" where
  "precise_rules =
   [ \<comment> \<open>1\<close>
     (lit ''('' @ grp 1 [Star (NoneOf '')'')] @ lit '':,'' @ [Star Space]
          @ grp 2 [Star (NoneOf '')'')] @ lit '')'',
        [Txt ''('', Ref 1, Txt '': '', Ref 2, Txt '')'']),
     \<comment> \<open>2\<close>
     (grp 1 (plus Word) @ lit '':,'' @ [Star Space] @ grp 2 (plus Word),
        [Ref 1, Txt '': '', Ref 2]),
     \<comment> \<open>3\<close>
     (lit ''watch(()'' @ [Star Space] @ lit ''=>'' @ [Star Space] @ grp 1 (plus (NoneOf '',''))
          @ lit '','' @ [Star Space] @ lit ''=>'' @ [Star Space] @ lit ''{'',
        [Txt ''watch(() => '', Ref 1, Txt '', () => {'']),
     \<comment> \<open>4\<close>
     (lit ''{'' @ [Star Space] @ lit '','', [Txt ''{'']),
     (lit '','' @ [Star Space] @ lit ''}'', [Txt ''}'']),
     \<comment> \<open>5\<close>
     (grp 1 (plus Word) @ lit ''[]'' @ [Star Space] @ lit '';'', [Ref 1, Txt ''[0];'']),
     (grp 1 (plus Word) @ lit ''[].'', [Ref 1, Txt ''[0].'']),
     \<comment> \<open>6\<close>
     (lit ''length,'' @ [Star Space] @ lit ''0)'', [Txt ''length > 0)'']),
     \<comment> \<open>7\<close>
     (lit ''${'' @ grp 1 (plus Word) @ lit ''[].'' @ grp 2 (plus Word) @ lit ''}'',
        [Txt ''${'', Ref 1, Txt ''[0].'', Ref 2, Txt ''}'']),
     \<comment> \<open>8\<close>
     (lit ''):'' @ [Star Space] @ grp 1 (plus Word) @ [Star Space] @ lit ''=>'',
        [Txt ''): '', Ref 1, Txt '' =>'']) ]"

definition fix_specific_typescript_errors :: "string \<Rightarrow> string" where
  "fix_specific_typescript_errors content = apply_rules precise_rules content"

section \<open>The rules of final-fix\<close>

text \<open>
  \<^verbatim>\<open>fix_specific_errors\<close> treats seven files, each with its own substitutions; every
  pattern is a literal text.
\<close>

definition cache_file :: string where "cache_file = ''src/main/modules/cache.ts''"
definition filemanager_file :: string where "filemanager_file = ''src/main/modules/fileManager.ts''"
definition tray_file :: string where "tray_file = ''src/main/modules/tray.ts''"
definition windowsize_file :: string where "windowsize_file = ''src/main/modules/window-size.ts''"
definition unblock_file :: string where "unblock_file = ''src/main/unblockMusic.ts''"
definition preload_file :: string where "preload_file = ''src/preload/index.ts''"
definition apiresponses_file :: string where "apiresponses_file = ''src/renderer/types/api-responses.ts''"

definition cache_rules :: "rule list" where
  "cache_rules =
   [ (lit ''if (cleanedSize, '', [Txt ''if (cleanedSize >= '']),
     (lit ''if (cleanedCount, '', [Txt ''if (cleanedCount > '']),
     (lit ''const toDelete: string[] = [0];'', [Txt ''const toDelete: string[] = [];'']) ]"

definition filemanager_rules :: "rule list" where
  "filemanager_rules =
   [ (lit ''}[] = [0];'', [Txt ''}[] = [];'']),
     (lit ''const mergedLines: string[] = [0];'', [Txt ''const mergedLines: string[] = [];'']),
     (lit ''as { name: string }[0]'', [Txt ''as { name: string }[]'']),
     (lit (''downloadStore.get('' @ [squote] @ ''history'' @ [squote] @ '', [0])''),
        [Txt (''downloadStore.get('' @ [squote] @ ''history'' @ [squote] @ '', [])'')]),
     (lit ''as Record<string, unknown>[0]'', [Txt ''as Record<string, unknown>[]'']) ]"

definition tray_rules :: "rule list" where
  "tray_rules =
   [ (lit ''as MenuItemConstructorOptions[0]'', [Txt ''as MenuItemConstructorOptions[]'']),
     (lit '': [0]) as MenuItemConstructorOptions'', [Txt '': []) as MenuItemConstructorOptions[]'']) ]"

definition windowsize_rules :: "rule list" where
  "windowsize_rules =
   [ (lit ''if (scaleFactor, '', [Txt ''if (scaleFactor > '']),
     (lit ''} else if (scaleFactor, '', [Txt ''} else if (scaleFactor > '']) ]"

definition unblock_rules :: "rule list" where
  "unblock_rules = [ (lit ''as unknown[0]'', [Txt ''as unknown[]'']) ]"

definition preload_rules :: "rule list" where
  "preload_rules = [ (lit ''unknown[0]'', [Txt ''unknown[]'']) ]"

definition apiresponses_rules :: "rule list" where
  "apiresponses_rules =
   [ (lit ''Artist[0]'', [Txt ''Artist[]'']),
     (lit ''Album[0]'', [Txt ''Album[]'']),
     (lit ''Playlist[0]'', [Txt ''Playlist[]'']),
     (lit ''SongUrl[0]'', [Txt ''SongUrl[]'']),
     (lit ''unknown[0]'', [Txt ''unknown[]'']) ]"

section \<open>Files, printing and the external type check\<close>

text \<open>
  The scripts read and write files by path, print progress lines and end with
  \<^verbatim>\<open>os.system('npm run typecheck')\<close>. The disk maps each existing path to its file; a
  file that exists may still refuse to be read (a directory, no permission, bytes that are
  not UTF-8) or to be written. Every write that succeeds is recorded in \<open>writes\<close>, also
  when it stores the text the file already had. Distinct paths name distinct files, a
  write that fails leaves the file as it was, printing never fails, and the type check
  changes no file. An \<open>event\<close> stands for a line the scripts print (they print in
  Chinese; the comments translate) or for the call of the type check.
\<close>

type_synonym path = string

datatype io_error = FileNotFound | ReadFailed | WriteFailed

record file_entry =
  contents :: string
  readable :: bool
  writable :: bool

datatype event =
    Started                  \<comment> \<open>the first line a \<^verbatim>\<open>main\<close> prints\<close>
  | Found nat                \<comment> \<open>the number of files to check\<close>
  | Fixed path               \<comment> \<open>"fixed: path"\<close>
  | NoNeed path              \<comment> \<open>"nothing to fix: path"\<close>
  | Failed path io_error     \<comment> \<open>"fix failed path: error"\<close>
  | Missing path             \<comment> \<open>"file does not exist: path"\<close>
  | Summary nat              \<comment> \<open>"fixed n files in total"\<close>
  | Done                     \<comment> \<open>"fix complete"\<close>
  | Verifying                \<comment> \<open>"running the type check"\<close>
  | Typecheck                \<comment> \<open>the call \<^verbatim>\<open>os.system('npm run typecheck')\<close>\<close>

record world =
  disk :: "path \<rightharpoonup> file_entry"
  writes :: "path list"
  log :: "event list"

definition say :: "event \<Rightarrow> world \<Rightarrow> world" where
  "say e w = w\<lparr>log := log w @ [e]\<rparr>"

definition path_exists :: "world \<Rightarrow> path \<Rightarrow> bool" where
  \<comment> \<open>\<^verbatim>\<open>os.path.exists\<close>\<close>
  "path_exists w p = (disk w p \<noteq> None)"

definition read_file :: "world \<Rightarrow> path \<Rightarrow> io_error + string" where
  \<comment> \<open>\<^verbatim>\<open>with open(p, 'r', encoding='utf-8') as f: content = f.read()\<close>\<close>
  "read_file w p =
     (case disk w p of
        None \<Rightarrow> Inl FileNotFound
      | Some f \<Rightarrow> if readable f then Inr (contents f) else Inl ReadFailed)"

definition write_file :: "world \<Rightarrow> path \<Rightarrow> string \<Rightarrow> io_error + world" where
  \<comment> \<open>\<^verbatim>\<open>with open(p, 'w', encoding='utf-8') as f: f.write(text)\<close>; a path that does
      not exist yet is created\<close>
  "write_file w p text =
     (case disk w p of
        None \<Rightarrow>
          Inr (w\<lparr>disk := (disk w)(p \<mapsto> \<lparr>contents = text, readable = True, writable = True\<rparr>),
                 writes := writes w @ [p]\<rparr>)
      | Some f \<Rightarrow>
          if writable f
          then Inr (w\<lparr>disk := (disk w)(p \<mapsto> f\<lparr>contents := text\<rparr>), writes := writes w @ [p]\<rparr>)
          else Inl WriteFailed)"

definition verify :: "world \<Rightarrow> world" where
  \<comment> \<open>the last three statements of every \<^verbatim>\<open>main\<close>\<close>
  "verify w = say Typecheck (say Verifying w)"

section \<open>simple-fix: fix_file and main\<close>

text \<open>
  \<open>simple_fix_try\<close> is the body of the \<^verbatim>\<open>try\<close> statement: it gives the world at the
  point where the body is left and either the exception raised or the value returned.
  \<open>simple_fix_file\<close> adds the handler \<^verbatim>\<open>except Exception\<close>.
\<close>

definition simple_fix_try :: "world \<Rightarrow> path \<Rightarrow> world \<times> (io_error + bool)" where
  "simple_fix_try w file_path =
     (case read_file w file_path of
        Inl e \<Rightarrow> (w, Inl e)
      | Inr original_content \<Rightarrow>
          let content = simple_fix original_content in
          if content \<noteq> original_content
          then (case write_file w file_path content of
                  Inl e \<Rightarrow> (w, Inl e)
                | Inr w' \<Rightarrow> (say (Fixed file_path) w', Inr True))
          else (say (NoNeed file_path) w, Inr False))"

definition simple_fix_file :: "world \<Rightarrow> path \<Rightarrow> world \<times> bool" where
  "simple_fix_file w file_path =
     (case simple_fix_try w file_path of
        (w', Inl e) \<Rightarrow> (say (Failed file_path e) w', False)
      | (w', Inr changed) \<Rightarrow> (w', changed))"

text \<open>
  The loop \<^verbatim>\<open>for file_path in files_to_fix: if fix_file(file_path): fixed_count += 1\<close>,
  which simple-fix and smart-fix share word for word.
\<close>

fun fix_loop :: "(world \<Rightarrow> path \<Rightarrow> world \<times> bool) \<Rightarrow> path list \<Rightarrow> world \<Rightarrow> nat \<Rightarrow> world \<times> nat" where
  "fix_loop fix_file [] w fixed_count = (w, fixed_count)"
| "fix_loop fix_file (file_path # rest) w fixed_count =
     (case fix_file w file_path of
        (w', True) \<Rightarrow> fix_loop fix_file rest w' (fixed_count + 1)
      | (w', False) \<Rightarrow> fix_loop fix_file rest w' fixed_count)"

text \<open>
  \<^verbatim>\<open>glob.glob(pattern, recursive=True)\<close> is a parameter, \<open>glob\<close>. The script collects the
  results of all patterns and removes duplicates with \<^verbatim>\<open>list(set(files_to_fix))\<close>,
  whose order Python leaves open; the model keeps each path at its last occurrence.
\<close>

definition files_to_fix :: "(string \<Rightarrow> path list) \<Rightarrow> string list \<Rightarrow> path list" where
  "files_to_fix glob patterns = remdups (concat (map glob patterns))"

definition simple_patterns :: "string list" where
  "simple_patterns = [''plugins/**/*.ts'', ''src/**/*.ts'', ''src/**/*.vue'', ''src/**/*.d.ts'']"

definition simple_main :: "(string \<Rightarrow> path list) \<Rightarrow> world \<Rightarrow> world" where
  "simple_main glob w =
     (let files = files_to_fix glob simple_patterns;
          w1 = say (Found (length files)) (say Started w);
          (w2, fixed_count) = fix_loop simple_fix_file files w1 0
      in verify (say (Summary fixed_count) w2))"

section \<open>smart-fix: fix_file and main\<close>

definition smart_fix_try :: "world \<Rightarrow> path \<Rightarrow> world \<times> (io_error + bool)" where
  "smart_fix_try w file_path =
     (case read_file w file_path of
        Inl e \<Rightarrow> (w, Inl e)
      | Inr original_content \<Rightarrow>
          let content = fix_typescript_syntax original_content;
              content = (if endswith file_path ''.vue'' then fix_vue_syntax content else content) in
          if content \<noteq> original_content
          then (case write_file w file_path content of
                  Inl e \<Rightarrow> (w, Inl e)
                | Inr w' \<Rightarrow> (say (Fixed file_path) w', Inr True))
          else (w, Inr False))"

definition smart_fix_file :: "world \<Rightarrow> path \<Rightarrow> world \<times> bool" where
  "smart_fix_file w file_path =
     (case smart_fix_try w file_path of
        (w', Inl e) \<Rightarrow> (say (Failed file_path e) w', False)
      | (w', Inr changed) \<Rightarrow> (w', changed))"

definition smart_patterns :: "string list" where
  "smart_patterns = [''src/**/*.ts'', ''src/**/*.vue'', ''plugins/**/*.ts'']"

definition smart_main :: "(string \<Rightarrow> path list) \<Rightarrow> world \<Rightarrow> world" where
  "smart_main glob w =
     (let files = files_to_fix glob smart_patterns;
          w1 = say (Found (length files)) (say Started w);
          (w2, fixed_count) = fix_loop smart_fix_file files w1 0
      in verify (say (Summary fixed_count) w2))"

section \<open>final-precise-fix: fix_file and main\<close>

definition precise_fix_try :: "world \<Rightarrow> path \<Rightarrow> world \<times> (io_error + bool)" where
  "precise_fix_try w file_path =
     (case read_file w file_path of
        Inl e \<Rightarrow> (w, Inl e)
      | Inr original_content \<Rightarrow>
          let content = fix_specific_typescript_errors original_content in
          if content \<noteq> original_content
          then (case write_file w file_path content of
                  Inl e \<Rightarrow> (w, Inl e)
                | Inr w' \<Rightarrow> (say (Fixed file_path) w', Inr True))
          else (w, Inr False))"

definition precise_fix_file :: "world \<Rightarrow> path \<Rightarrow> world \<times> bool" where
  "precise_fix_file w file_path =
     (case precise_fix_try w file_path of
        (w', Inl e) \<Rightarrow> (say (Failed file_path e) w', False)
      | (w', Inr changed) \<Rightarrow> (w', changed))"

definition problem_files :: "path list" where
  "problem_files =
     [''src/main/lyric.ts'', ''src/main/modules/fileManager.ts'', ''src/main/modules/loginWindow.ts'']"

fun precise_loop :: "path list \<Rightarrow> world \<Rightarrow> nat \<Rightarrow> world \<times> nat" where
  "precise_loop [] w fixed_count = (w, fixed_count)"
| "precise_loop (file_path # rest) w fixed_count =
     (if path_exists w file_path
      then (case precise_fix_file w file_path of
              (w', True) \<Rightarrow> precise_loop rest w' (fixed_count + 1)
            | (w', False) \<Rightarrow> precise_loop rest w' fixed_count)
      else precise_loop rest (say (Missing file_path) w) fixed_count)"

definition precise_main :: "world \<Rightarrow> world" where
  "precise_main w =
     (let (w1, fixed_count) = precise_loop problem_files (say Started w) 0
      in verify (say (Summary fixed_count) w1))"

section \<open>final-fix: fix_specific_errors and main\<close>

text \<open>
  \<^verbatim>\<open>fix_specific_errors\<close> is seven blocks of the same shape, one per file, with no
  \<^verbatim>\<open>try\<close> around them: an exception raised by a read or a write leaves the function and
  \<^verbatim>\<open>main\<close>. \<open>fix_block\<close> is one block; its second component is the exception raised,
  if any.
\<close>

definition fix_block :: "path \<Rightarrow> rule list \<Rightarrow> world \<Rightarrow> world \<times> io_error option" where
  "fix_block file_path rules w =
     (if path_exists w file_path
      then (case read_file w file_path of
              Inl e \<Rightarrow> (w, Some e)
            | Inr content \<Rightarrow>
                (case write_file w file_path (apply_rules rules content) of
                   Inl e \<Rightarrow> (w, Some e)
                 | Inr w' \<Rightarrow> (say (Fixed file_path) w', None)))
      else (w, None))"

fun run_blocks :: "(path \<times> rule list) list \<Rightarrow> world \<Rightarrow> world \<times> io_error option" where
  "run_blocks [] w = (w, None)"
| "run_blocks ((file_path, rules) # rest) w =
     (case fix_block file_path rules w of
        (w', Some e) \<Rightarrow> (w', Some e)
      | (w', None) \<Rightarrow> run_blocks rest w')"

definition final_blocks :: "(path \<times> rule list) list" where
  "final_blocks =
     [ (cache_file, cache_rules),
       (filemanager_file, filemanager_rules),
       (tray_file, tray_rules),
       (windowsize_file, windowsize_rules),
       (unblock_file, unblock_rules),
       (preload_file, preload_rules),
       (apiresponses_file, apiresponses_rules) ]"

definition fix_specific_errors :: "world \<Rightarrow> world \<times> io_error option" where
  "fix_specific_errors w = run_blocks final_blocks w"

definition final_main :: "world \<Rightarrow> world \<times> io_error option" where
  "final_main w =
     (case fix_specific_errors (say Started w) of
        (w', Some e) \<Rightarrow> (w', Some e)
      | (w', None) \<Rightarrow> (verify (say Done w'), None))"

section \<open>The common shape of the three fix_file functions\<close>

text \<open>
  The three \<^verbatim>\<open>fix_file\<close> functions differ in the repair they apply to the content
  (smart-fix looks at the file path too) and in whether an unchanged file is announced
  (only simple-fix prints a line for it). \<open>fix_try_of\<close> and \<open>fix_file_of\<close> are their
  shape with these two as parameters; each function above is shown equal to its instance
  before anything is proved through the shape.
\<close>

definition fix_try_of :: "(path \<Rightarrow> string \<Rightarrow> string) \<Rightarrow> bool \<Rightarrow> world \<Rightarrow> path \<Rightarrow> world \<times> (io_error + bool)" where
  "fix_try_of repair announce w file_path =
     (case read_file w file_path of
        Inl e \<Rightarrow> (w, Inl e)
      | Inr original_content \<Rightarrow>
          let content = repair file_path original_content in
          if content \<noteq> original_content
          then (case write_file w file_path content of
                  Inl e \<Rightarrow> (w, Inl e)
                | Inr w' \<Rightarrow> (say (Fixed file_path) w', Inr True))
          else (if announce then say (NoNeed file_path) w else w, Inr False))"

definition fix_file_of :: "(path \<Rightarrow> string \<Rightarrow> string) \<Rightarrow> bool \<Rightarrow> world \<Rightarrow> path \<Rightarrow> world \<times> bool" where
  "fix_file_of repair announce w file_path =
     (case fix_try_of repair announce w file_path of
        (w', Inl e) \<Rightarrow> (say (Failed file_path e) w', False)
      | (w', Inr changed) \<Rightarrow> (w', changed))"

section \<open>The characters a rule table is keyed on\<close>

text \<open>
  \<open>keyed_on cs rules\<close>: every pattern of the table contains one of the characters \<open>cs\<close>
  as a literal, so it can match only in a text where that character occurs.
\<close>

definition keyed_on :: "string \<Rightarrow> rule list \<Rightarrow> bool" where
  "keyed_on cs rules = list_all (\<lambda>(p, tpl). list_ex (\<lambda>c. One (Ch c) \<in> set p) cs) rules"

section \<open>Texts a rule table leaves alone, and occurrences a literal rule cannot touch\<close>


text \<open>
  The rules of final-fix are literal texts. \<open>agree u v\<close>: \<open>u\<close> and \<open>v\<close> are equal as far
  as both reach. \<open>isolated P m\<close>: in a text that contains \<open>m\<close>, no occurrence of \<open>P\<close> can
  begin before \<open>m\<close> and end inside it, or begin inside \<open>m\<close> and end after it, whatever
  the text around \<open>m\<close> is. \<open>isolated_through\<close> asks this of every rule of a list in turn,
  for what the rules before it made of \<open>m\<close>.
\<close>

fun agree :: "string \<Rightarrow> string \<Rightarrow> bool" where
  "agree (x # xs) (y # ys) = (x = y \<and> agree xs ys)"
| "agree _ _ = True"

definition isolated :: "string \<Rightarrow> string \<Rightarrow> bool" where
  "isolated P m =
     (list_all (\<lambda>k. \<not> agree (drop k P) m) [1..<length P]
      \<and> list_all (\<lambda>k. \<not> agree P (drop k m)) (filter (\<lambda>k. length m - k < length P) [0..<length m]))"

fun isolated_through :: "(string \<times> string) list \<Rightarrow> string \<Rightarrow> bool" where
  "isolated_through [] m = True"
| "isolated_through ((P, R) # prs) m =
     (P \<noteq> [] \<and> isolated P m \<and> isolated_through prs (sub (lit P) [Txt R] m))"

definition literal_rules :: "(string \<times> string) list \<Rightarrow> rule list" where
  "literal_rules prs = map (\<lambda>(P, R). (lit P, [Txt R])) prs"

section \<open>Example files and worlds\<close>

text \<open>
  Concrete inputs on which the theorems below are evaluated: a file that can be read and
  written, a file that exists and cannot be read, a world with nothing written or printed
  yet, and a \<open>glob\<close> whose patterns overlap on one path.
\<close>

definition plain_file :: "string \<Rightarrow> file_entry" where
  "plain_file text = \<lparr>contents = text, readable = True, writable = True\<rparr>"

definition unreadable_file :: file_entry where
  "unreadable_file = \<lparr>contents = [], readable = False, writable = True\<rparr>"

definition fresh_world :: "(path \<rightharpoonup> file_entry) \<Rightarrow> world" where
  "fresh_world d = \<lparr>disk = d, writes = [], log = []\<rparr>"

definition demo_glob :: "string \<Rightarrow> path list" where
  "demo_glob pat =
     (if pat = ''src/**/*.ts'' then [''src/a.ts'', ''src/b.ts'', ''src/c.d.ts'']
      else if pat = ''src/**/*.d.ts'' then [''src/c.d.ts'']
      else [])"

definition demo_world :: world where
  "demo_world =
     fresh_world [''src/a.ts'' \<mapsto> unreadable_file,
                  ''src/b.ts'' \<mapsto> plain_file ''f(x:, number) +, 1'',
                  ''src/c.d.ts'' \<mapsto> plain_file ''const a = 1;'']"

definition blocked_world :: world where
  "blocked_world =
     fresh_world [cache_file \<mapsto> unreadable_file,
                  filemanager_file \<mapsto> plain_file ''const a: {}[] = [0];'']"

definition unblocked_world :: world where
  "unblocked_world =
     fresh_world [cache_file \<mapsto> plain_file ''const a = 1;'',
                  filemanager_file \<mapsto> plain_file ''const a: {}[] = [0];'']"

definition lyric_missing_world :: world where
  "lyric_missing_world = fresh_world [''src/main/modules/fileManager.ts'' \<mapsto> plain_file ''if (a.length, 0) {}'']"

definition cache_missing_world :: world where
  "cache_missing_world = fresh_world [filemanager_file \<mapsto> plain_file ''const a: {}[] = [0];'']"

section \<open>Properties of the matcher\<close>

lemma rmatch_sound: "rmatch p s = Some (segs, r) \<Longrightarrow> s = concat segs @ r"
proof (induction p s arbitrary: segs r rule: rmatch.induct)
  case (7 c p x xs)
  show ?case
  proof (cases "accepts c x")
    case True
    show ?thesis
    proof (cases "rmatch (Star c # p) xs")
      case None
      with True 7 show ?thesis by (auto simp: skip_def)
    next
      case (Some m)
      obtain sg rr where m: "m = (sg, rr)" by (cases m)
      from 7(1)[OF True] Some m have xs: "xs = concat sg @ rr" by simp
      from True Some m 7(4) have g: "grow x (sg, rr) = (segs, r)" by simp
      show ?thesis using g xs by (cases sg) auto
    qed
  next
    case False
    with 7 show ?thesis by (auto simp: skip_def)
  qed
qed (auto simp: skip_def take1_def split: if_splits)

lemma rmatch_literal_consumed:
  "rmatch p s = Some (segs, r) \<Longrightarrow> One (Ch c) \<in> set p \<Longrightarrow> c \<in> set (concat segs)"
proof (induction p s arbitrary: segs r rule: rmatch.induct)
  case (5 c' p x xs)
  then show ?case by (auto simp: take1_def split: if_splits)
next
  case (7 c' p x xs)
  show ?case
  proof (cases "accepts c' x")
    case True
    show ?thesis
    proof (cases "rmatch (Star c' # p) xs")
      case None
      with True 7 show ?thesis by (auto simp: skip_def)
    next
      case (Some m)
      obtain sg rr where m: "m = (sg, rr)" by (cases m)
      from 7(1)[OF True] Some m 7(5) have "c \<in> set (concat sg)" by simp
      moreover from True Some m 7(4) have "grow x (sg, rr) = (segs, r)" by simp
      ultimately show ?thesis by (cases sg) auto
    qed
  next
    case False
    with 7 show ?thesis by (auto simp: skip_def)
  qed
qed (auto simp: skip_def)

lemma rmatch_needs_literal:
  "rmatch p s = Some (segs, r) \<Longrightarrow> One (Ch c) \<in> set p \<Longrightarrow> c \<in> set s"
  using rmatch_literal_consumed[of p s segs r c] rmatch_sound[of p s segs r] by auto

text \<open>
  A pattern keyed on a character never matches the empty text, so with the rule tables of
  the scripts \<open>sub\<close> never takes its branch for an empty match.
\<close>

lemma keyed_match_not_empty:
  "keyed_on cs rules \<Longrightarrow> (p, tpl) \<in> set rules \<Longrightarrow> rmatch p s = Some (segs, r) \<Longrightarrow> concat segs \<noteq> []"
  by (fastforce simp: keyed_on_def list_all_iff list_ex_iff dest: rmatch_literal_consumed)

lemma sub_without_literal:
  "One (Ch c) \<in> set p \<Longrightarrow> c \<notin> set s \<Longrightarrow> sub p tpl s = s"
proof (induction s)
  case Nil
  then have "rmatch p [] = None"
    using rmatch_needs_literal[of p "[]" _ _ c] by (cases "rmatch p []") auto
  then show ?case by simp
next
  case (Cons x xs)
  then have "rmatch p (x # xs) = None"
    using rmatch_needs_literal[of p "x # xs" _ _ c] by (cases "rmatch p (x # xs)") auto
  with Cons show ?case by simp
qed

lemma apply_rules_without_keys:
  "keyed_on cs rules \<Longrightarrow> set s \<inter> set cs = {} \<Longrightarrow> apply_rules rules s = s"
proof (induction rules arbitrary: s)
  case Nil
  then show ?case by simp
next
  case (Cons rl rules)
  obtain p tpl where rl: "rl = (p, tpl)" by (cases rl)
  from Cons.prems(1) rl obtain c where c: "c \<in> set cs" "One (Ch c) \<in> set p"
    by (auto simp: keyed_on_def list_ex_iff)
  from c Cons.prems(2) have "c \<notin> set s" by auto
  with c have "sub p tpl s = s" by (rule_tac sub_without_literal)
  moreover from Cons.prems(1) have "keyed_on cs rules" by (simp add: keyed_on_def)
  ultimately show ?case using Cons.IH[of s] Cons.prems(2) rl by simp
qed

lemma rmatch_lit_self: "rmatch (lit P) (P @ t) = Some (map (\<lambda>c. [c]) P, t)"
  by (induction P) (simp_all add: lit_def take1_def)

lemma rmatch_lit_prefix: "rmatch (lit P) s = Some (segs, r) \<Longrightarrow> s = P @ r"
proof (induction P arbitrary: s segs)
  case Nil
  then show ?case by (simp add: lit_def)
next
  case (Cons c P)
  from Cons.prems obtain xs where s: "s = c # xs"
    by (cases s) (auto simp: lit_def split: if_splits)
  with Cons.prems obtain segs' where "rmatch (lit P) xs = Some (segs', r)"
    by (auto simp: lit_def take1_def)
  from Cons.IH[OF this] s show ?case by simp
qed

lemma rmatch_lit_Nil: "P \<noteq> [] \<Longrightarrow> rmatch (lit P) [] = None"
  by (cases P) (simp_all add: lit_def)

lemma rmatch_lit_iff: "rmatch (lit P) s \<noteq> None \<longleftrightarrow> (\<exists>r. s = P @ r)"
proof
  assume "rmatch (lit P) s \<noteq> None"
  then obtain segs r where "rmatch (lit P) s = Some (segs, r)" by (cases "rmatch (lit P) s") auto
  then show "\<exists>r. s = P @ r" by (auto dest: rmatch_lit_prefix)
next
  assume "\<exists>r. s = P @ r"
  then show "rmatch (lit P) s \<noteq> None" by (auto simp: rmatch_lit_self)
qed

lemma agree_common_start: "u @ r = v @ t \<Longrightarrow> agree u v"
proof (induction u v arbitrary: r t rule: agree.induct)
  case (1 x xs y ys)
  then show ?case by auto
qed simp_all

lemma sub_lit_split:
  assumes "P \<noteq> []"
  shows "(\<And>a b. pre = a @ b \<Longrightarrow> b \<noteq> [] \<Longrightarrow> length b < length P \<Longrightarrow> rmatch (lit P) (b @ s) = None)
         \<Longrightarrow> sub (lit P) [Txt R] (pre @ s) = sub (lit P) [Txt R] pre @ sub (lit P) [Txt R] s"
proof (induction pre rule: length_induct)
  case (1 pre)
  note IH = "1.IH" and straddle = "1.prems"
  show ?case
  proof (cases pre)
    case Nil
    then show ?thesis using assms by (simp add: rmatch_lit_Nil)
  next
    case (Cons x xs)
    show ?thesis
    proof (cases "rmatch (lit P) (pre @ s)")
      case None
      then have "rmatch (lit P) pre = None"
        using rmatch_lit_iff[of P pre] rmatch_lit_iff[of P "pre @ s"] by (cases "rmatch (lit P) pre") auto
      moreover have "sub (lit P) [Txt R] (xs @ s) = sub (lit P) [Txt R] xs @ sub (lit P) [Txt R] s"
      proof (rule IH[rule_format])
        show "length xs < length pre" using Cons by simp
      next
        fix a b assume "xs = a @ b" "b \<noteq> []" "length b < length P"
        then show "rmatch (lit P) (b @ s) = None" using straddle[of "x # a" b] Cons by simp
      qed
      ultimately show ?thesis using None Cons by simp
    next
      case (Some m)
      then obtain r where r: "pre @ s = P @ r" using rmatch_lit_iff[of P "pre @ s"] by auto
      have long: "length P \<le> length pre"
      proof (rule ccontr)
        assume "\<not> length P \<le> length pre"
        then have "rmatch (lit P) (pre @ s) = None" using straddle[of "[]" pre] Cons by simp
        with Some show False by simp
      qed
      then obtain pre' where pre: "pre = P @ pre'"
        using r by (metis append_eq_append_conv_if append_take_drop_id)
      with r have rr: "r = pre' @ s" by simp
      obtain p ps where P: "P = p # ps" using assms by (cases P) auto
      have cc: "concat (map (\<lambda>c. [c]) P) = P" by (induction P) simp_all
      have m1: "rmatch (lit P) (p # ps @ pre' @ s) = Some (map (\<lambda>c. [c]) P, pre' @ s)"
        using rmatch_lit_self[of P "pre' @ s"] by (simp add: P)
      have m2: "rmatch (lit P) (p # ps @ pre') = Some (map (\<lambda>c. [c]) P, pre')"
        using rmatch_lit_self[of P pre'] by (simp add: P)
      have s1: "sub (lit P) [Txt R] (pre @ s) = R @ sub (lit P) [Txt R] (pre' @ s)"
        using m1 cc by (simp add: pre P)
      have s2: "sub (lit P) [Txt R] pre = R @ sub (lit P) [Txt R] pre'"
        using m2 cc by (simp add: pre P)
      have "sub (lit P) [Txt R] (pre' @ s) = sub (lit P) [Txt R] pre' @ sub (lit P) [Txt R] s"
      proof (rule IH[rule_format])
        show "length pre' < length pre" using pre assms by simp
      next
        fix a b assume "pre' = a @ b" "b \<noteq> []" "length b < length P"
        then show "rmatch (lit P) (b @ s) = None" using straddle[of "P @ a" b] pre by simp
      qed
      with s1 s2 show ?thesis by simp
    qed
  qed
qed

lemma sub_isolated:
  assumes "P \<noteq> []" and "isolated P m"
  shows "sub (lit P) [Txt R] (pre @ m @ post)
           = sub (lit P) [Txt R] pre @ sub (lit P) [Txt R] m @ sub (lit P) [Txt R] post"
proof -
  from assms(2) have left: "\<And>k. 1 \<le> k \<Longrightarrow> k < length P \<Longrightarrow> \<not> agree (drop k P) m"
    and right: "\<And>k. k < length m \<Longrightarrow> length m - k < length P \<Longrightarrow> \<not> agree P (drop k m)"
    by (auto simp: isolated_def list_all_iff)
  have "sub (lit P) [Txt R] (pre @ (m @ post))
          = sub (lit P) [Txt R] pre @ sub (lit P) [Txt R] (m @ post)"
  proof (rule sub_lit_split[OF assms(1)])
    fix a b assume b: "pre = a @ b" "b \<noteq> []" "length b < length P"
    show "rmatch (lit P) (b @ m @ post) = None"
    proof (rule ccontr)
      assume "rmatch (lit P) (b @ m @ post) \<noteq> None"
      then obtain r where r: "b @ m @ post = P @ r" using rmatch_lit_iff by blast
      with b(3) have "P = b @ drop (length b) P"
        by (metis append_eq_append_conv_if append_take_drop_id less_imp_le_nat)
      with r have "drop (length b) P @ r = m @ post"
        by (metis append.assoc same_append_eq)
      then have "agree (drop (length b) P) m" by (rule agree_common_start)
      with left[of "length b"] b show False by (cases b) auto
    qed
  qed
  moreover have "sub (lit P) [Txt R] (m @ post) = sub (lit P) [Txt R] m @ sub (lit P) [Txt R] post"
  proof (rule sub_lit_split[OF assms(1)])
    fix a b assume b: "m = a @ b" "b \<noteq> []" "length b < length P"
    show "rmatch (lit P) (b @ post) = None"
    proof (rule ccontr)
      assume "rmatch (lit P) (b @ post) \<noteq> None"
      then obtain r where "b @ post = P @ r" using rmatch_lit_iff by blast
      then have "P @ r = b @ post" by simp
      then have "agree P b" by (rule agree_common_start)
      moreover have "b = drop (length a) m" using b(1) by simp
      moreover have "length a < length m" "length m - length a < length P" using b by auto
      ultimately show False using right[of "length a"] by simp
    qed
  qed
  ultimately show ?thesis by simp
qed

lemma apply_literal_rules_isolated:
  "isolated_through prs m \<Longrightarrow>
   apply_rules (literal_rules prs) (pre @ m @ post)
     = apply_rules (literal_rules prs) pre @ apply_rules (literal_rules prs) m
       @ apply_rules (literal_rules prs) post"
proof (induction prs arbitrary: pre m post)
  case Nil
  then show ?case by (simp add: literal_rules_def)
next
  case (Cons pr prs)
  obtain P R where pr: "pr = (P, R)" by (cases pr)
  from Cons.prems pr have P: "P \<noteq> []" and iso: "isolated P m"
    and rest: "isolated_through prs (sub (lit P) [Txt R] m)" by simp_all
  have "apply_rules (literal_rules (pr # prs)) t = apply_rules (literal_rules prs) (sub (lit P) [Txt R] t)" for t
    by (simp add: literal_rules_def pr)
  then show ?case using sub_isolated[OF P iso, of R pre post] Cons.IH[OF rest] by simp
qed

lemma cache_rules_literal:
  "cache_rules = literal_rules
     [(''if (cleanedSize, '', ''if (cleanedSize >= ''),
      (''if (cleanedCount, '', ''if (cleanedCount > ''),
      (''const toDelete: string[] = [0];'', ''const toDelete: string[] = [];'')]"
  by (simp add: cache_rules_def literal_rules_def)

lemma cache_isolated_1:
  "isolated_through
     [(''if (cleanedSize, '', ''if (cleanedSize >= ''),
      (''if (cleanedCount, '', ''if (cleanedCount > ''),
      (''const toDelete: string[] = [0];'', ''const toDelete: string[] = [];'')]
     ''if (cleanedSize, 10) {''"
  by code_simp

lemma cache_isolated_2:
  "isolated_through
     [(''if (cleanedSize, '', ''if (cleanedSize >= ''),
      (''if (cleanedCount, '', ''if (cleanedCount > ''),
      (''const toDelete: string[] = [0];'', ''const toDelete: string[] = [];'')]
     ''const toDelete: string[] = [0];''"
  by code_simp




lemma keyed_replacements: "keyed_on '',>['' replacements"
  by code_simp
lemma keyed_typescript: "keyed_on '',>['' typescript_rules"
  by code_simp
lemma keyed_vue: "keyed_on '',>['' vue_rules"
  by code_simp
lemma keyed_precise: "keyed_on '',>['' precise_rules"
  by code_simp
lemma keyed_final: "list_all (\<lambda>(p, rules). keyed_on '',>['' rules) final_blocks"
  by code_simp

section \<open>What the rule tables do to a text\<close>







text \<open>
  Claim C5. The substitutions of final-fix for the cache module rewrite
  \<^verbatim>\<open>if (cleanedSize, 10) {\<close> to \<^verbatim>\<open>if (cleanedSize >= 10) {\<close> and
  \<^verbatim>\<open>const toDelete: string[] = [0];\<close> to \<^verbatim>\<open>const toDelete: string[] = [];\<close>, as the
  whole input and wherever the input contains them: whatever text stands before and
  after, the occurrence is rewritten in place, and the text before it and the text after
  it are repaired as they would be on their own.
\<close>

theorem targeted_correction:
  "apply_rules cache_rules ''if (cleanedSize, 10) {'' = ''if (cleanedSize >= 10) {''
   \<and> apply_rules cache_rules ''const toDelete: string[] = [0];'' = ''const toDelete: string[] = [];''
   \<and> apply_rules cache_rules (pre @ ''if (cleanedSize, 10) {'' @ post)
        = apply_rules cache_rules pre @ ''if (cleanedSize >= 10) {'' @ apply_rules cache_rules post
   \<and> apply_rules cache_rules (pre @ ''const toDelete: string[] = [0];'' @ post)
        = apply_rules cache_rules pre @ ''const toDelete: string[] = [];'' @ apply_rules cache_rules post"
proof -
  have a: "apply_rules cache_rules ''if (cleanedSize, 10) {'' = ''if (cleanedSize >= 10) {''"
    by code_simp
  have b: "apply_rules cache_rules ''const toDelete: string[] = [0];'' = ''const toDelete: string[] = [];''"
    by code_simp
  have c: "apply_rules cache_rules (pre @ ''if (cleanedSize, 10) {'' @ post)
        = apply_rules cache_rules pre @ apply_rules cache_rules ''if (cleanedSize, 10) {''
          @ apply_rules cache_rules post"
    unfolding cache_rules_literal by (rule apply_literal_rules_isolated[OF cache_isolated_1])
  have d: "apply_rules cache_rules (pre @ ''const toDelete: string[] = [0];'' @ post)
        = apply_rules cache_rules pre @ apply_rules cache_rules ''const toDelete: string[] = [0];''
          @ apply_rules cache_rules post"
    unfolding cache_rules_literal by (rule apply_literal_rules_isolated[OF cache_isolated_2])
  show ?thesis using a b c d by simp
qed

text \<open>
  Claim C9. The variants disagree on the array literal: on \<^verbatim>\<open>x = [];\<close> simple-fix
  gives \<^verbatim>\<open>x = [0];\<close> and smart-fix leaves the text; on \<^verbatim>\<open>x = [0];\<close> simple-fix
  leaves the text and smart-fix gives \<^verbatim>\<open>x = [];\<close>; and simple-fix undoes on
  \<^verbatim>\<open>const toDelete: string[] = [];\<close> the very rewriting final-fix performs.
\<close>

theorem array_literal_rules_conflict:
  "simple_fix ''x = [];'' = ''x = [0];'' \<and> smart_fix ''src/a.ts'' ''x = [];'' = ''x = [];''
   \<and> simple_fix ''x = [0];'' = ''x = [0];'' \<and> smart_fix ''src/a.ts'' ''x = [0];'' = ''x = [];''
   \<and> simple_fix ''const toDelete: string[] = [];'' = ''const toDelete: string[] = [0];''
   \<and> apply_rules cache_rules ''const toDelete: string[] = [0];'' = ''const toDelete: string[] = [];''"
  by code_simp

section \<open>Properties of fix_file and of the loop over the files\<close>

lemma simple_fix_try_of: "simple_fix_try = fix_try_of (\<lambda>p. simple_fix) True"
  by (intro ext) (simp add: simple_fix_try_def fix_try_of_def)

lemma simple_fix_file_of: "simple_fix_file = fix_file_of (\<lambda>p. simple_fix) True"
  by (intro ext) (simp add: simple_fix_file_def fix_file_of_def simple_fix_try_of)

lemma smart_fix_try_of: "smart_fix_try = fix_try_of smart_fix False"
  by (intro ext) (simp add: smart_fix_try_def fix_try_of_def smart_fix_def Let_def split: sum.splits)

lemma smart_fix_file_of: "smart_fix_file = fix_file_of smart_fix False"
  by (intro ext) (simp add: smart_fix_file_def fix_file_of_def smart_fix_try_of)

lemma precise_fix_try_of: "precise_fix_try = fix_try_of (\<lambda>p. fix_specific_typescript_errors) False"
  by (intro ext) (simp add: precise_fix_try_def fix_try_of_def)

lemma precise_fix_file_of: "precise_fix_file = fix_file_of (\<lambda>p. fix_specific_typescript_errors) False"
  by (intro ext) (simp add: precise_fix_file_def fix_file_of_def precise_fix_try_of)

lemma say_simps [simp]:
  "disk (say e w) = disk w" "writes (say e w) = writes w" "log (say e w) = log w @ [e]"
  by (simp_all add: say_def)

lemma verify_simps [simp]:
  "disk (verify w) = disk w" "writes (verify w) = writes w"
  "log (verify w) = log w @ [Verifying, Typecheck]"
  by (simp_all add: verify_def)

lemma fix_file_of_cases:
  "fix_file_of repair announce w p =
     (case disk w p of
        None \<Rightarrow> (say (Failed p FileNotFound) w, False)
      | Some f \<Rightarrow>
          if \<not> readable f then (say (Failed p ReadFailed) w, False)
          else if repair p (contents f) = contents f
          then (if announce then say (NoNeed p) w else w, False)
          else if writable f
          then (say (Fixed p) (w\<lparr>disk := (disk w)(p \<mapsto> f\<lparr>contents := repair p (contents f)\<rparr>),
                                  writes := writes w @ [p]\<rparr>), True)
          else (say (Failed p WriteFailed) w, False))"
  by (simp add: fix_file_of_def fix_try_of_def read_file_def write_file_def Let_def
           split: option.splits)

lemma fix_try_of_raised:
  "snd (fix_try_of repair announce w p) = Inl e \<longleftrightarrow>
     (case disk w p of
        None \<Rightarrow> e = FileNotFound
      | Some f \<Rightarrow>
          if \<not> readable f then e = ReadFailed
          else repair p (contents f) \<noteq> contents f \<and> \<not> writable f \<and> e = WriteFailed)"
  by (auto simp: fix_try_of_def read_file_def write_file_def Let_def split: option.splits)

lemma fix_file_of_frame: "q \<noteq> p \<Longrightarrow> disk (fst (fix_file_of repair announce w p)) q = disk w q"
  by (simp add: fix_file_of_cases split: option.splits)

lemma fix_file_of_disk:
  "disk (fst (fix_file_of repair announce w p)) p =
     map_option (\<lambda>f. if readable f \<and> writable f then f\<lparr>contents := repair p (contents f)\<rparr> else f)
       (disk w p)"
  by (simp add: fix_file_of_cases split: option.splits)

lemma fix_file_of_changed:
  "snd (fix_file_of repair announce w p) \<longleftrightarrow>
     (\<exists>f. disk w p = Some f \<and> readable f \<and> writable f \<and> repair p (contents f) \<noteq> contents f)"
  by (auto simp: fix_file_of_cases split: option.splits)

lemma fix_file_of_failed:
  "Failed q e \<in> set (log (fst (fix_file_of repair announce w p))) \<longleftrightarrow>
     Failed q e \<in> set (log w) \<or> (q = p \<and> snd (fix_try_of repair announce w p) = Inl e)"
  unfolding fix_try_of_raised by (auto simp: fix_file_of_cases split: option.splits)

lemma fix_loop_disk:
  "distinct ps \<Longrightarrow>
   disk (fst (fix_loop (fix_file_of repair announce) ps w n)) q =
     (if q \<in> set ps then disk (fst (fix_file_of repair announce w q)) q else disk w q)"
proof (induction ps arbitrary: w n)
  case Nil
  then show ?case by simp
next
  case (Cons p ps)
  obtain w' b where step: "fix_file_of repair announce w p = (w', b)"
    by (cases "fix_file_of repair announce w p")
  have w': "w' = fst (fix_file_of repair announce w p)" using step by simp
  have rest: "fix_loop (fix_file_of repair announce) (p # ps) w n =
                fix_loop (fix_file_of repair announce) ps w' (if b then n + 1 else n)"
    using step by simp
  from Cons.prems have d: "distinct ps" and np: "p \<notin> set ps" by simp_all
  have ih: "disk (fst (fix_loop (fix_file_of repair announce) ps w' (if b then n + 1 else n))) q =
      (if q \<in> set ps then disk (fst (fix_file_of repair announce w' q)) q else disk w' q)"
    by (rule Cons.IH[OF d])
  show ?case
  proof (cases "q = p")
    case True
    with np ih rest w' show ?thesis by simp
  next
    case False
    then have same: "disk w' q = disk w q" unfolding w' by (rule fix_file_of_frame)
    then have "disk (fst (fix_file_of repair announce w' q)) q = disk (fst (fix_file_of repair announce w q)) q"
      by (simp add: fix_file_of_disk)
    with False same ih rest show ?thesis by simp
  qed
qed

lemma fix_loop_count:
  "distinct ps \<Longrightarrow>
   snd (fix_loop (fix_file_of repair announce) ps w n) =
     n + length (filter (\<lambda>p. snd (fix_file_of repair announce w p)) ps)"
proof (induction ps arbitrary: w n)
  case Nil
  then show ?case by simp
next
  case (Cons p ps)
  obtain w' b where step: "fix_file_of repair announce w p = (w', b)"
    by (cases "fix_file_of repair announce w p")
  have w': "w' = fst (fix_file_of repair announce w p)" and b: "b = snd (fix_file_of repair announce w p)"
    using step by simp_all
  from Cons.prems have d: "distinct ps" and np: "p \<notin> set ps" by simp_all
  have same: "snd (fix_file_of repair announce w' q) = snd (fix_file_of repair announce w q)"
    if "q \<in> set ps" for q
  proof -
    from that np have "q \<noteq> p" by auto
    then have "disk w' q = disk w q" unfolding w' by (rule fix_file_of_frame)
    then show ?thesis by (simp add: fix_file_of_changed)
  qed
  then have f: "filter (\<lambda>q. snd (fix_file_of repair announce w' q)) ps =
                filter (\<lambda>q. snd (fix_file_of repair announce w q)) ps"
    by (intro filter_cong) auto
  show ?case using step Cons.IH[OF d, of w'] f b by (cases b) simp_all
qed

lemma fix_loop_failed:
  "distinct ps \<Longrightarrow>
   Failed q e \<in> set (log (fst (fix_loop (fix_file_of repair announce) ps w n))) \<longleftrightarrow>
     Failed q e \<in> set (log w) \<or> (q \<in> set ps \<and> snd (fix_try_of repair announce w q) = Inl e)"
proof (induction ps arbitrary: w n)
  case Nil
  then show ?case by simp
next
  case (Cons p ps)
  obtain w' b where step: "fix_file_of repair announce w p = (w', b)"
    by (cases "fix_file_of repair announce w p")
  have w': "w' = fst (fix_file_of repair announce w p)" using step by simp
  from Cons.prems have d: "distinct ps" and np: "p \<notin> set ps" by simp_all
  have same: "snd (fix_try_of repair announce w' r) = Inl e \<longleftrightarrow> snd (fix_try_of repair announce w r) = Inl e"
    if "r \<in> set ps" for r
  proof -
    from that np have "r \<noteq> p" by auto
    then have "disk w' r = disk w r" unfolding w' by (rule fix_file_of_frame)
    then show ?thesis by (simp add: fix_try_of_raised)
  qed
  have head: "Failed q e \<in> set (log w') \<longleftrightarrow>
       Failed q e \<in> set (log w) \<or> (q = p \<and> snd (fix_try_of repair announce w p) = Inl e)"
    unfolding w' by (rule fix_file_of_failed)
  have "fix_loop (fix_file_of repair announce) (p # ps) w n =
          fix_loop (fix_file_of repair announce) ps w' (if b then n + 1 else n)"
    using step by simp
  then show ?case using Cons.IH[OF d, of w' "if b then n + 1 else n"] head same by auto
qed

lemma fix_loop_log_prefix:
  "\<exists>evs. log (fst (fix_loop (fix_file_of repair announce) ps w n)) = log w @ evs"
proof (induction ps arbitrary: w n)
  case Nil
  then show ?case by simp
next
  case (Cons p ps)
  obtain w' b where step: "fix_file_of repair announce w p = (w', b)"
    by (cases "fix_file_of repair announce w p")
  have "\<exists>evs. log w' = log w @ evs"
    using step by (auto simp: fix_file_of_cases split: option.splits if_splits)
  moreover have "\<exists>evs. log (fst (fix_loop (fix_file_of repair announce) ps w' (if b then n + 1 else n))) = log w' @ evs"
    by (rule Cons.IH)
  ultimately show ?case using step by (cases b) auto
qed

lemma distinct_files_to_fix: "distinct (files_to_fix glob patterns)"
  by (simp add: files_to_fix_def)

lemma simple_main_unfold:
  "simple_main glob w =
     verify (say (Summary (snd (fix_loop simple_fix_file (files_to_fix glob simple_patterns)
                (say (Found (length (files_to_fix glob simple_patterns))) (say Started w)) 0)))
       (fst (fix_loop simple_fix_file (files_to_fix glob simple_patterns)
                (say (Found (length (files_to_fix glob simple_patterns))) (say Started w)) 0)))"
  by (simp add: simple_main_def Let_def split_def)

lemma smart_main_unfold:
  "smart_main glob w =
     verify (say (Summary (snd (fix_loop smart_fix_file (files_to_fix glob smart_patterns)
                (say (Found (length (files_to_fix glob smart_patterns))) (say Started w)) 0)))
       (fst (fix_loop smart_fix_file (files_to_fix glob smart_patterns)
                (say (Found (length (files_to_fix glob smart_patterns))) (say Started w)) 0)))"
  by (simp add: smart_main_def Let_def split_def)

lemma main_shape:
  assumes "m = verify (say (Summary (snd (fix_loop (fix_file_of repair announce) fs
                (say (Found (length fs)) (say Started w)) 0)))
       (fst (fix_loop (fix_file_of repair announce) fs (say (Found (length fs)) (say Started w)) 0)))"
    and "distinct fs"
  shows "(p \<in> set fs \<longrightarrow> disk m p = disk (fst (fix_file_of repair announce w p)) p)
       \<and> (Failed q e \<in> set (log m) \<longleftrightarrow>
            Failed q e \<in> set (log w) \<or> q \<in> set fs \<and> snd (fix_try_of repair announce w q) = Inl e)
       \<and> last (log m) = Typecheck
       \<and> (\<exists>evs. log m = log w @ evs @
            [Summary (length (filter (\<lambda>p. snd (fix_file_of repair announce w p)) fs)), Verifying, Typecheck])"
proof -
  let ?w1 = "say (Found (length fs)) (say Started w)"
  let ?L = "fix_loop (fix_file_of repair announce) fs ?w1 0"
  have d1: "disk ?w1 = disk w" by simp
  have a: "disk (fst ?L) p = disk (fst (fix_file_of repair announce w p)) p" if "p \<in> set fs"
    using that fix_loop_disk[OF assms(2), of repair announce ?w1 0 p] d1
    by (simp add: fix_file_of_disk)
  have b: "Failed q e \<in> set (log (fst ?L)) \<longleftrightarrow>
            Failed q e \<in> set (log w) \<or> q \<in> set fs \<and> snd (fix_try_of repair announce w q) = Inl e"
    using fix_loop_failed[OF assms(2), of q e repair announce ?w1 0] d1
    by (simp add: fix_try_of_raised)
  have c: "snd ?L = length (filter (\<lambda>p. snd (fix_file_of repair announce w p)) fs)"
    using fix_loop_count[OF assms(2), of repair announce ?w1 0] d1
    by (simp add: fix_file_of_changed)
  obtain evs where evs: "log (fst ?L) = log ?w1 @ evs"
    using fix_loop_log_prefix[of repair announce fs ?w1 0] by blast
  have e: "log m = log w @ ([Started, Found (length fs)] @ evs) @
            [Summary (length (filter (\<lambda>p. snd (fix_file_of repair announce w p)) fs)), Verifying, Typecheck]"
    using assms(1) evs c by simp
  show ?thesis
    apply (intro conjI)
    subgoal using a assms(1) by simp
    subgoal using b assms(1) by simp
    subgoal using assms(1) by simp
    subgoal using e by blast
    done
qed

lemma demo_files_simple: "files_to_fix demo_glob simple_patterns = [''src/a.ts'', ''src/b.ts'', ''src/c.d.ts'']"
  by code_simp
lemma demo_files_smart: "files_to_fix demo_glob smart_patterns = [''src/a.ts'', ''src/b.ts'', ''src/c.d.ts'']"
  by code_simp

lemma count_list_distinct: "distinct xs \<Longrightarrow> count_list xs x = (if x \<in> set xs then 1 else 0)"
  by (induction xs) auto

lemma precise_main_unfold:
  "precise_main w =
     verify (say (Summary (snd (precise_loop problem_files (say Started w) 0)))
       (fst (precise_loop problem_files (say Started w) 0)))"
  by (simp add: precise_main_def Let_def split_def)

lemma fix_file_of_exists:
  "path_exists (fst (fix_file_of repair announce w p)) q = path_exists w q"
  by (cases "q = p") (simp_all add: path_exists_def fix_file_of_disk fix_file_of_frame)

lemma fix_file_of_missing:
  "Missing q \<in> set (log (fst (fix_file_of repair announce w p))) \<longleftrightarrow> Missing q \<in> set (log w)"
  by (auto simp: fix_file_of_cases split: option.splits if_splits)

lemma precise_loop_step:
  "precise_loop (p # ps) w n =
     (if path_exists w p
      then precise_loop ps (fst (precise_fix_file w p)) (if snd (precise_fix_file w p) then n + 1 else n)
      else precise_loop ps (say (Missing p) w) n)"
  by (cases "precise_fix_file w p") (auto split: bool.splits)

lemma precise_loop_disk:
  "distinct ps \<Longrightarrow>
   disk (fst (precise_loop ps w n)) q =
     (if q \<in> set ps \<and> path_exists w q then disk (fst (precise_fix_file w q)) q else disk w q)"
proof (induction ps arbitrary: w n)
  case Nil
  then show ?case by simp
next
  case (Cons p ps)
  from Cons.prems have d: "distinct ps" and np: "p \<notin> set ps" by simp_all
  show ?case
  proof (cases "path_exists w p")
    case False
    then show ?thesis
      using Cons.IH[OF d, of "say (Missing p) w" n] np
      by (auto simp: precise_loop_step path_exists_def precise_fix_file_of fix_file_of_disk
            simp del: precise_loop.simps)
  next
    case True
    let ?w' = "fst (precise_fix_file w p)"
    have frame: "disk ?w' r = disk w r" if "r \<noteq> p" for r
      using that by (simp add: precise_fix_file_of fix_file_of_frame)
    have ex: "path_exists ?w' r = path_exists w r" for r
      by (simp add: precise_fix_file_of fix_file_of_exists)
    have same: "disk (fst (precise_fix_file ?w' r)) r = disk (fst (precise_fix_file w r)) r" if "r \<noteq> p" for r
      using frame[OF that] by (simp add: precise_fix_file_of fix_file_of_disk)
    have step: "precise_loop (p # ps) w n =
                  precise_loop ps ?w' (if snd (precise_fix_file w p) then n + 1 else n)"
      using True by (simp only: precise_loop_step if_True)
    note ih = Cons.IH[OF d, of ?w' "if snd (precise_fix_file w p) then n + 1 else n"]
    show ?thesis
    proof (cases "q = p")
      case qp: True
      with np ih True show ?thesis unfolding step by simp
    next
      case qp: False
      from frame[OF qp] same[OF qp] ex[of q] ih qp show ?thesis unfolding step by simp
    qed
  qed
qed

lemma precise_loop_missing:
  "distinct ps \<Longrightarrow>
   Missing q \<in> set (log (fst (precise_loop ps w n))) \<longleftrightarrow>
     Missing q \<in> set (log w) \<or> (q \<in> set ps \<and> \<not> path_exists w q)"
proof (induction ps arbitrary: w n)
  case Nil
  then show ?case by simp
next
  case (Cons p ps)
  from Cons.prems have d: "distinct ps" and np: "p \<notin> set ps" by simp_all
  show ?case
  proof (cases "path_exists w p")
    case False
    then show ?thesis
      using Cons.IH[OF d, of "say (Missing p) w" n]
      by (auto simp: precise_loop_step path_exists_def simp del: precise_loop.simps)
  next
    case True
    let ?w' = "fst (precise_fix_file w p)"
    have ex: "path_exists ?w' r = path_exists w r" for r
      by (simp add: precise_fix_file_of fix_file_of_exists)
    have lg: "Missing q \<in> set (log ?w') \<longleftrightarrow> Missing q \<in> set (log w)"
      by (simp add: precise_fix_file_of fix_file_of_missing)
    show ?thesis
      using True Cons.IH[OF d, of ?w' "if snd (precise_fix_file w p) then n + 1 else n"] ex lg
      by (auto simp: precise_loop_step simp del: precise_loop.simps)
  qed
qed

lemma distinct_problem_files: "distinct problem_files"
  by (simp add: problem_files_def)

lemma fix_block_cases:
  "fix_block p rules w =
     (case disk w p of
        None \<Rightarrow> (w, None)
      | Some f \<Rightarrow>
          if \<not> readable f then (w, Some ReadFailed)
          else if writable f
          then (say (Fixed p) (w\<lparr>disk := (disk w)(p \<mapsto> f\<lparr>contents := apply_rules rules (contents f)\<rparr>),
                                  writes := writes w @ [p]\<rparr>), None)
          else (w, Some WriteFailed))"
  by (simp add: fix_block_def path_exists_def read_file_def write_file_def split: option.splits)

lemma fix_block_exists: "path_exists (fst (fix_block p rules w)) q = path_exists w q"
  by (simp add: fix_block_cases path_exists_def split: option.splits)

lemma fix_block_log:
  "e \<in> set (log (fst (fix_block p rules w))) \<Longrightarrow>
   e \<in> set (log w) \<or> (e = Fixed p \<and> path_exists w p)"
  by (auto simp: fix_block_cases path_exists_def split: option.splits if_splits)

lemma run_blocks_existing:
  "run_blocks bs w = run_blocks (filter (\<lambda>(p, rules). path_exists w p) bs) w"
proof (induction bs arbitrary: w)
  case Nil
  then show ?case by simp
next
  case (Cons b bs)
  obtain p rules where b: "b = (p, rules)" by (cases b)
  show ?case
  proof (cases "path_exists w p")
    case False
    then have "fix_block p rules w = (w, None)" by (simp add: fix_block_def)
    with False b Cons.IH[of w] show ?thesis by simp
  next
    case True
    obtain w' r where step: "fix_block p rules w = (w', r)" by (cases "fix_block p rules w")
    have ex: "path_exists w' q = path_exists w q" for q
      using fix_block_exists[of p rules w q] step by simp
    then have f: "filter (\<lambda>(p, rules). path_exists w' p) bs = filter (\<lambda>(p, rules). path_exists w p) bs"
      by (intro filter_cong) auto
    show ?thesis using True b step Cons.IH[of w'] f by (cases r) simp_all
  qed
qed

lemma run_blocks_log:
  "e \<in> set (log (fst (run_blocks bs w))) \<Longrightarrow>
   e \<in> set (log w) \<or> (\<exists>p. e = Fixed p \<and> p \<in> fst ` set bs \<and> path_exists w p)"
proof (induction bs arbitrary: w)
  case Nil
  then show ?case by simp
next
  case (Cons b bs)
  obtain p rules where b: "b = (p, rules)" by (cases b)
  obtain w' r where step: "fix_block p rules w = (w', r)" by (cases "fix_block p rules w")
  have ex: "path_exists w' q = path_exists w q" for q
    using fix_block_exists[of p rules w q] step by simp
  have head: "e \<in> set (log w') \<Longrightarrow> e \<in> set (log w) \<or> (e = Fixed p \<and> path_exists w p)"
    using fix_block_log[of e p rules w] step by simp
  show ?case
  proof (cases r)
    case (Some err)
    with Cons.prems b step have "e \<in> set (log w')" by simp
    with head b show ?thesis by auto
  next
    case None
    with Cons.prems b step have "e \<in> set (log (fst (run_blocks bs w')))" by simp
    from Cons.IH[OF this] head ex b show ?thesis by auto
  qed
qed

section \<open>What a run does to the files\<close>

text \<open>
  Claim C3, as amended. In simple-fix, smart-fix and final-precise-fix, when the file is
  read and the repair leaves its text as it was, \<^verbatim>\<open>fix_file\<close> writes nothing, leaves the
  disk as it is and returns False; simple-fix prints that nothing was to fix, the other
  two print nothing.
\<close>

theorem unchanged_file_not_written:
  assumes "read_file w p = Inr c"
  shows "(simple_fix c = c \<longrightarrow>
            writes (fst (simple_fix_file w p)) = writes w \<and> disk (fst (simple_fix_file w p)) = disk w
            \<and> log (fst (simple_fix_file w p)) = log w @ [NoNeed p] \<and> \<not> snd (simple_fix_file w p))
       \<and> (smart_fix p c = c \<longrightarrow> smart_fix_file w p = (w, False))
       \<and> (fix_specific_typescript_errors c = c \<longrightarrow> precise_fix_file w p = (w, False))"
  using assms
  by (auto simp: simple_fix_file_of smart_fix_file_of precise_fix_file_of fix_file_of_cases
        read_file_def split: option.splits if_splits)

theorem unchanged_file_not_written_witness:
  "read_file demo_world ''src/c.d.ts'' = Inr ''const a = 1;''
   \<and> simple_fix ''const a = 1;'' = ''const a = 1;''
   \<and> smart_fix ''src/c.d.ts'' ''const a = 1;'' = ''const a = 1;''
   \<and> fix_specific_typescript_errors ''const a = 1;'' = ''const a = 1;''
   \<and> writes (fst (simple_fix_file demo_world ''src/c.d.ts'')) = writes demo_world
   \<and> disk (fst (simple_fix_file demo_world ''src/c.d.ts'')) = disk demo_world
   \<and> log (fst (simple_fix_file demo_world ''src/c.d.ts'')) = log demo_world @ [NoNeed ''src/c.d.ts'']
   \<and> \<not> snd (simple_fix_file demo_world ''src/c.d.ts'')
   \<and> smart_fix_file demo_world ''src/c.d.ts'' = (demo_world, False)
   \<and> precise_fix_file demo_world ''src/c.d.ts'' = (demo_world, False)"
proof -
  have r: "read_file demo_world ''src/c.d.ts'' = Inr ''const a = 1;''" by code_simp
  have a: "simple_fix ''const a = 1;'' = ''const a = 1;''" by code_simp
  have b: "smart_fix ''src/c.d.ts'' ''const a = 1;'' = ''const a = 1;''" by code_simp
  have c: "fix_specific_typescript_errors ''const a = 1;'' = ''const a = 1;''" by code_simp
  show ?thesis using unchanged_file_not_written[OF r] a b c r by simp
qed

text \<open>
  final-fix has no such test: it writes every file of its list that exists and reports it
  as fixed, also when the substitutions changed nothing.
\<close>

theorem final_fix_writes_unchanged_file:
  "apply_rules cache_rules ''const a = 1;'' = ''const a = 1;''
   \<and> disk unblocked_world cache_file = Some (plain_file ''const a = 1;'')
   \<and> disk (fst (final_main unblocked_world)) cache_file = Some (plain_file ''const a = 1;'')
   \<and> writes (fst (final_main unblocked_world)) = [cache_file, filemanager_file]
   \<and> Fixed cache_file \<in> set (log (fst (final_main unblocked_world)))"
  by code_simp

text \<open>
  Claim C4, as amended. In a run of simple-fix or of smart-fix every candidate file ends
  with the content \<^verbatim>\<open>fix_file\<close> gives it on its own, whatever happens to the other
  candidates; a failure line is printed for exactly the candidates whose read or write
  raises; and the run reaches its last statement, the type check.
\<close>

theorem io_failure_isolated:
  "(p \<in> set (files_to_fix glob simple_patterns) \<longrightarrow>
       disk (simple_main glob w) p = disk (fst (simple_fix_file w p)) p)
   \<and> (Failed q e \<in> set (log (simple_main glob w)) \<longleftrightarrow>
         Failed q e \<in> set (log w) \<or>
         q \<in> set (files_to_fix glob simple_patterns) \<and> snd (simple_fix_try w q) = Inl e)
   \<and> last (log (simple_main glob w)) = Typecheck
   \<and> (p \<in> set (files_to_fix glob smart_patterns) \<longrightarrow>
       disk (smart_main glob w) p = disk (fst (smart_fix_file w p)) p)
   \<and> (Failed q e \<in> set (log (smart_main glob w)) \<longleftrightarrow>
         Failed q e \<in> set (log w) \<or>
         q \<in> set (files_to_fix glob smart_patterns) \<and> snd (smart_fix_try w q) = Inl e)
   \<and> last (log (smart_main glob w)) = Typecheck"
  using main_shape[OF simple_main_unfold[unfolded simple_fix_file_of] distinct_files_to_fix, of p glob w q e]
        main_shape[OF smart_main_unfold[unfolded smart_fix_file_of] distinct_files_to_fix, of p glob w q e]
  by (simp add: simple_fix_file_of simple_fix_try_of smart_fix_file_of smart_fix_try_of)

theorem io_failure_isolated_witness:
  "''src/b.ts'' \<in> set (files_to_fix demo_glob simple_patterns)
   \<and> ''src/b.ts'' \<in> set (files_to_fix demo_glob smart_patterns)
   \<and> snd (simple_fix_try demo_world ''src/a.ts'') = Inl ReadFailed
   \<and> snd (smart_fix_try demo_world ''src/a.ts'') = Inl ReadFailed
   \<and> Failed ''src/a.ts'' ReadFailed \<in> set (log (simple_main demo_glob demo_world))
   \<and> Failed ''src/a.ts'' ReadFailed \<in> set (log (smart_main demo_glob demo_world))
   \<and> disk (simple_main demo_glob demo_world) ''src/b.ts'' = disk (fst (simple_fix_file demo_world ''src/b.ts'')) ''src/b.ts''
   \<and> disk (smart_main demo_glob demo_world) ''src/b.ts'' = disk (fst (smart_fix_file demo_world ''src/b.ts'')) ''src/b.ts''
   \<and> disk (fst (simple_fix_file demo_world ''src/b.ts'')) ''src/b.ts'' = Some (plain_file ''f(x:, number) + 1'')
   \<and> disk (fst (smart_fix_file demo_world ''src/b.ts'')) ''src/b.ts'' = Some (plain_file ''f(x: number) +, 1'')
   \<and> last (log (simple_main demo_glob demo_world)) = Typecheck
   \<and> last (log (smart_main demo_glob demo_world)) = Typecheck"
proof -
  have a: "snd (simple_fix_try demo_world ''src/a.ts'') = Inl ReadFailed" by code_simp
  have b: "snd (smart_fix_try demo_world ''src/a.ts'') = Inl ReadFailed" by code_simp
  have c: "disk (fst (simple_fix_file demo_world ''src/b.ts'')) ''src/b.ts'' = Some (plain_file ''f(x:, number) + 1'')"
    by code_simp
  have d: "disk (fst (smart_fix_file demo_world ''src/b.ts'')) ''src/b.ts'' = Some (plain_file ''f(x: number) +, 1'')"
    by code_simp
  show ?thesis
    using io_failure_isolated[of "''src/b.ts''" demo_glob demo_world "''src/a.ts''" ReadFailed] a b c d
    by (simp add: demo_files_simple demo_files_smart)
qed

text \<open>
  final-fix has no handler: when its first file exists and cannot be read, the run ends
  there with the exception, and the second file, which it would have repaired, is left
  as it was.
\<close>

theorem final_fix_aborts_on_io_failure:
  "snd (final_main blocked_world) = Some ReadFailed
   \<and> log (fst (final_main blocked_world)) = [Started]
   \<and> writes (fst (final_main blocked_world)) = []
   \<and> disk (fst (final_main blocked_world)) filemanager_file = Some (plain_file ''const a: {}[] = [0];'')
   \<and> snd (final_main unblocked_world) = None
   \<and> log (fst (final_main unblocked_world)) =
        [Started, Fixed cache_file, Fixed filemanager_file, Done, Verifying, Typecheck]
   \<and> disk (fst (final_main unblocked_world)) filemanager_file = Some (plain_file ''const a: {}[] = [];'')"
  by code_simp

text \<open>
  Claim C6, as amended. In final-precise-fix a listed path that does not exist is
  reported and skipped, every listed path that exists is still processed, and the run
  reaches the type check. In final-fix the block of a listed path that does not exist
  does nothing and raises nothing, so the run is the run over the listed paths that
  exist; but every line final-fix prints about a file names a file that exists: nothing
  reports the missing path.
\<close>

theorem missing_path_reported_and_skipped:
  "(p \<in> set problem_files \<and> \<not> path_exists w p \<longrightarrow>
       Missing p \<in> set (log (precise_main w))
       \<and> \<not> path_exists (precise_main w) p
       \<and> (q \<in> set problem_files \<and> path_exists w q \<longrightarrow>
            disk (precise_main w) q = disk (fst (precise_fix_file w q)) q)
       \<and> last (log (precise_main w)) = Typecheck)
   \<and> ((fp, rules) \<in> set final_blocks \<and> \<not> path_exists w fp \<longrightarrow> fix_block fp rules w = (w, None))
   \<and> fix_specific_errors w = run_blocks (filter (\<lambda>(fp, rules). path_exists w fp) final_blocks) w
   \<and> (e \<in> set (log (fst (final_main w))) \<longrightarrow>
         e \<in> set (log w) \<or> e \<in> {Started, Done, Verifying, Typecheck}
         \<or> (\<exists>fp. e = Fixed fp \<and> path_exists w fp))"
proof -
  have precise: "Missing p \<in> set (log (precise_main w))
       \<and> \<not> path_exists (precise_main w) p
       \<and> (q \<in> set problem_files \<and> path_exists w q \<longrightarrow>
            disk (precise_main w) q = disk (fst (precise_fix_file w q)) q)
       \<and> last (log (precise_main w)) = Typecheck"
    if assms: "p \<in> set problem_files" "\<not> path_exists w p"
  proof -
    let ?w1 = "say Started w"
    have e1: "path_exists ?w1 r = path_exists w r" for r by (simp add: path_exists_def)
    have a: "Missing p \<in> set (log (precise_main w))"
      using precise_loop_missing[OF distinct_problem_files, of p ?w1 0] assms e1
      by (simp add: precise_main_unfold)
    have b: "\<not> path_exists (precise_main w) p"
      using precise_loop_disk[OF distinct_problem_files, of ?w1 0 p] assms e1
      by (simp add: precise_main_unfold path_exists_def)
    have c: "disk (precise_main w) q = disk (fst (precise_fix_file w q)) q"
      if "q \<in> set problem_files" "path_exists w q"
      using precise_loop_disk[OF distinct_problem_files, of ?w1 0 q] that e1
      by (simp add: precise_main_unfold precise_fix_file_of fix_file_of_disk)
    have d: "last (log (precise_main w)) = Typecheck" by (simp add: precise_main_unfold)
    from a b c d show ?thesis by blast
  qed
  have skip: "\<not> path_exists w fp \<longrightarrow> fix_block fp rules w = (w, None)"
    by (simp add: fix_block_def)
  have run: "fix_specific_errors w = run_blocks (filter (\<lambda>(fp, rules). path_exists w fp) final_blocks) w"
    unfolding fix_specific_errors_def by (rule run_blocks_existing)
  have lg: "e \<in> set (log w) \<or> e \<in> {Started, Done, Verifying, Typecheck}
         \<or> (\<exists>fp. e = Fixed fp \<and> path_exists w fp)"
    if e: "e \<in> set (log (fst (final_main w)))"
  proof -
    obtain w' r where fs: "fix_specific_errors (say Started w) = (w', r)"
      by (cases "fix_specific_errors (say Started w)")
    have inner: "x \<in> set (log w') \<Longrightarrow>
        x \<in> set (log w) \<or> x = Started \<or> (\<exists>fp. x = Fixed fp \<and> path_exists w fp)" for x
      using run_blocks_log[of x final_blocks "say Started w"] fs
      by (auto simp: fix_specific_errors_def path_exists_def)
    show ?thesis
    proof (cases r)
      case (Some err)
      with e fs have "e \<in> set (log w')" by (simp add: final_main_def)
      with inner show ?thesis by auto
    next
      case None
      with e fs have "e \<in> set (log w') \<or> e \<in> {Done, Verifying, Typecheck}"
        by (auto simp: final_main_def)
      with inner show ?thesis by auto
    qed
  qed
  from precise skip run lg show ?thesis by blast
qed

theorem missing_path_reported_and_skipped_witness:
  "''src/main/lyric.ts'' \<in> set problem_files \<and> \<not> path_exists lyric_missing_world ''src/main/lyric.ts''
   \<and> ''src/main/modules/fileManager.ts'' \<in> set problem_files
   \<and> path_exists lyric_missing_world ''src/main/modules/fileManager.ts''
   \<and> Missing ''src/main/lyric.ts'' \<in> set (log (precise_main lyric_missing_world))
   \<and> \<not> path_exists (precise_main lyric_missing_world) ''src/main/lyric.ts''
   \<and> disk (precise_main lyric_missing_world) ''src/main/modules/fileManager.ts''
        = disk (fst (precise_fix_file lyric_missing_world ''src/main/modules/fileManager.ts'')) ''src/main/modules/fileManager.ts''
   \<and> disk (fst (precise_fix_file lyric_missing_world ''src/main/modules/fileManager.ts'')) ''src/main/modules/fileManager.ts''
        = Some (plain_file ''if (a.length > 0) {}'')
   \<and> last (log (precise_main lyric_missing_world)) = Typecheck
   \<and> (cache_file, cache_rules) \<in> set final_blocks \<and> \<not> path_exists cache_missing_world cache_file
   \<and> fix_block cache_file cache_rules cache_missing_world = (cache_missing_world, None)
   \<and> filter (\<lambda>(fp, rules). path_exists cache_missing_world fp) final_blocks = [(filemanager_file, filemanager_rules)]
   \<and> fix_specific_errors cache_missing_world = run_blocks [(filemanager_file, filemanager_rules)] cache_missing_world
   \<and> snd (final_main cache_missing_world) = None
   \<and> disk (fst (final_main cache_missing_world)) filemanager_file = Some (plain_file ''const a: {}[] = [];'')
   \<and> log (fst (final_main cache_missing_world)) = [Started, Fixed filemanager_file, Done, Verifying, Typecheck]"
proof -
  have a: "''src/main/lyric.ts'' \<in> set problem_files" by code_simp
  have b: "\<not> path_exists lyric_missing_world ''src/main/lyric.ts''" by code_simp
  have c: "''src/main/modules/fileManager.ts'' \<in> set problem_files" by code_simp
  have d: "path_exists lyric_missing_world ''src/main/modules/fileManager.ts''" by code_simp
  have e: "disk (fst (precise_fix_file lyric_missing_world ''src/main/modules/fileManager.ts'')) ''src/main/modules/fileManager.ts''
        = Some (plain_file ''if (a.length > 0) {}'')" by code_simp
  have f: "(cache_file, cache_rules) \<in> set final_blocks" by (simp add: final_blocks_def)
  have g: "\<not> path_exists cache_missing_world cache_file" by code_simp
  have h: "filter (\<lambda>(fp, rules). path_exists cache_missing_world fp) final_blocks = [(filemanager_file, filemanager_rules)]"
    by code_simp
  have i: "snd (final_main cache_missing_world) = None" by code_simp
  have j: "disk (fst (final_main cache_missing_world)) filemanager_file = Some (plain_file ''const a: {}[] = [];'')"
    by code_simp
  have k: "log (fst (final_main cache_missing_world)) = [Started, Fixed filemanager_file, Done, Verifying, Typecheck]"
    by code_simp
  note t1 = missing_path_reported_and_skipped[where p = "''src/main/lyric.ts''" and w = lyric_missing_world
      and q = "''src/main/modules/fileManager.ts''" and fp = cache_file and rules = cache_rules and e = Started]
  note t2 = missing_path_reported_and_skipped[where p = "''src/main/lyric.ts''" and w = cache_missing_world
      and q = "''src/main/modules/fileManager.ts''" and fp = cache_file and rules = cache_rules and e = Started]
  have 1: "Missing ''src/main/lyric.ts'' \<in> set (log (precise_main lyric_missing_world))
       \<and> \<not> path_exists (precise_main lyric_missing_world) ''src/main/lyric.ts''
       \<and> disk (precise_main lyric_missing_world) ''src/main/modules/fileManager.ts''
          = disk (fst (precise_fix_file lyric_missing_world ''src/main/modules/fileManager.ts'')) ''src/main/modules/fileManager.ts''
       \<and> last (log (precise_main lyric_missing_world)) = Typecheck"
    using t1 a b c d by blast
  have 2: "fix_block cache_file cache_rules cache_missing_world = (cache_missing_world, None)"
    using t2 f g by blast
  have 3: "fix_specific_errors cache_missing_world = run_blocks [(filemanager_file, filemanager_rules)] cache_missing_world"
    using t2 h by simp
  show ?thesis using a b c d e f g h i j k 1 2 3 by simp
qed

text \<open>
  On an empty disk final-fix prints its first and last lines only: no line names any of
  the seven missing paths.
\<close>

theorem final_fix_skips_missing_path_silently:
  "\<not> path_exists (fresh_world Map.empty) cache_file
   \<and> final_blocks ! 0 = (cache_file, cache_rules)
   \<and> snd (final_main (fresh_world Map.empty)) = None
   \<and> log (fst (final_main (fresh_world Map.empty))) = [Started, Done, Verifying, Typecheck]"
  by code_simp

text \<open>
  Claim C7. The list of candidate files has no duplicates, for the patterns of simple-fix
  and of smart-fix and for any other patterns; it holds exactly the paths some pattern
  produces, each of them once.
\<close>

theorem resolved_files_listed_once:
  "distinct (files_to_fix glob simple_patterns) \<and> distinct (files_to_fix glob smart_patterns)
   \<and> set (files_to_fix glob patterns) = (\<Union>pat \<in> set patterns. set (glob pat))
   \<and> count_list (files_to_fix glob patterns) p =
        (if \<exists>pat \<in> set patterns. p \<in> set (glob pat) then 1 else 0)"
proof -
  have s: "set (files_to_fix glob patterns) = (\<Union>pat \<in> set patterns. set (glob pat))"
    by (simp add: files_to_fix_def)
  have c: "count_list (files_to_fix glob patterns) p = (if p \<in> set (files_to_fix glob patterns) then 1 else 0)"
    by (rule count_list_distinct[OF distinct_files_to_fix])
  show ?thesis using s c by (auto simp: distinct_files_to_fix)
qed

theorem resolved_files_listed_once_witness:
  "''src/c.d.ts'' \<in> set (demo_glob ''src/**/*.ts'') \<and> ''src/c.d.ts'' \<in> set (demo_glob ''src/**/*.d.ts'')
   \<and> ''src/**/*.ts'' \<in> set simple_patterns \<and> ''src/**/*.d.ts'' \<in> set simple_patterns
   \<and> count_list (files_to_fix demo_glob simple_patterns) ''src/c.d.ts'' = 1
   \<and> distinct (files_to_fix demo_glob simple_patterns)
   \<and> files_to_fix demo_glob simple_patterns = [''src/a.ts'', ''src/b.ts'', ''src/c.d.ts'']"
proof -
  have a: "''src/c.d.ts'' \<in> set (demo_glob ''src/**/*.ts'')" by code_simp
  have b: "''src/c.d.ts'' \<in> set (demo_glob ''src/**/*.d.ts'')" by code_simp
  have c: "''src/**/*.ts'' \<in> set simple_patterns" by code_simp
  have d: "''src/**/*.d.ts'' \<in> set simple_patterns" by code_simp
  have e: "\<exists>pat \<in> set simple_patterns. ''src/c.d.ts'' \<in> set (demo_glob pat)" using a c by blast
  show ?thesis
    using resolved_files_listed_once[of demo_glob simple_patterns "''src/c.d.ts''"] a b c d e
    by (simp add: demo_files_simple)
qed

text \<open>
  Claim C8. After \<^verbatim>\<open>fix_file\<close> the entry of the file is a function of its entry before
  and, for smart-fix, of its path: a file that can be read and written gets the repaired
  text, any other file stays as it was. Hence two orders of the same distinct files leave
  the same disk.
\<close>

theorem repair_depends_on_own_file_only:
  "disk (fst (simple_fix_file w p)) p =
     map_option (\<lambda>f. if readable f \<and> writable f then f\<lparr>contents := simple_fix (contents f)\<rparr> else f)
       (disk w p)
   \<and> disk (fst (smart_fix_file w p)) p =
     map_option (\<lambda>f. if readable f \<and> writable f then f\<lparr>contents := smart_fix p (contents f)\<rparr> else f)
       (disk w p)
   \<and> (distinct ps \<and> distinct qs \<and> set ps = set qs \<longrightarrow>
        disk (fst (fix_loop simple_fix_file ps w n)) = disk (fst (fix_loop simple_fix_file qs w m))
        \<and> disk (fst (fix_loop smart_fix_file ps w n)) = disk (fst (fix_loop smart_fix_file qs w m)))"
proof -
  have perm: "disk (fst (fix_loop (fix_file_of repair announce) ps w n)) =
              disk (fst (fix_loop (fix_file_of repair announce) qs w m))"
    if "distinct ps" "distinct qs" "set ps = set qs" for repair announce
    using that by (intro ext) (simp add: fix_loop_disk)
  show ?thesis
    unfolding simple_fix_file_of smart_fix_file_of
    using perm[of "\<lambda>p. simple_fix" True] perm[of smart_fix False]
    by (simp add: fix_file_of_disk)
qed

theorem repair_depends_on_own_file_only_witness:
  "distinct [''src/b.ts'', ''src/c.d.ts''] \<and> distinct [''src/c.d.ts'', ''src/b.ts'']
   \<and> set [''src/b.ts'', ''src/c.d.ts''] = set [''src/c.d.ts'', ''src/b.ts'']
   \<and> disk (fst (fix_loop simple_fix_file [''src/b.ts'', ''src/c.d.ts''] demo_world 0))
       = disk (fst (fix_loop simple_fix_file [''src/c.d.ts'', ''src/b.ts''] demo_world 0))
   \<and> disk (fst (fix_loop smart_fix_file [''src/b.ts'', ''src/c.d.ts''] demo_world 0))
       = disk (fst (fix_loop smart_fix_file [''src/c.d.ts'', ''src/b.ts''] demo_world 0))
   \<and> disk (fst (fix_loop simple_fix_file [''src/b.ts'', ''src/c.d.ts''] demo_world 0)) ''src/b.ts''
       = Some (plain_file ''f(x:, number) + 1'')"
proof -
  have a: "disk (fst (fix_loop simple_fix_file [''src/b.ts'', ''src/c.d.ts''] demo_world 0)) ''src/b.ts''
       = Some (plain_file ''f(x:, number) + 1'')" by code_simp
  have s: "set [''src/b.ts'', ''src/c.d.ts''] = set [''src/c.d.ts'', ''src/b.ts'']" by auto
  show ?thesis
    using repair_depends_on_own_file_only[of demo_world _ "[''src/b.ts'', ''src/c.d.ts'']"
        "[''src/c.d.ts'', ''src/b.ts'']" 0 0] a s
    by simp
qed

text \<open>
  Claim C10. \<^verbatim>\<open>fix_file\<close> of simple-fix and of smart-fix returns True exactly when the
  file was read, the repair changed its text and the write succeeded, and then the write
  is recorded; it returns False when the body raised and when the text is unchanged
  alike. The number \<^verbatim>\<open>main\<close> prints is the number of candidates with the value True.
\<close>

theorem fix_file_true_only_when_written:
  "(snd (simple_fix_file w p) \<longleftrightarrow>
      (\<exists>c w'. read_file w p = Inr c \<and> simple_fix c \<noteq> c \<and> write_file w p (simple_fix c) = Inr w'))
   \<and> (snd (smart_fix_file w p) \<longleftrightarrow>
      (\<exists>c w'. read_file w p = Inr c \<and> smart_fix p c \<noteq> c \<and> write_file w p (smart_fix p c) = Inr w'))
   \<and> (snd (simple_fix_file w p) \<longrightarrow> writes (fst (simple_fix_file w p)) = writes w @ [p])
   \<and> (snd (smart_fix_file w p) \<longrightarrow> writes (fst (smart_fix_file w p)) = writes w @ [p])
   \<and> (snd (simple_fix_try w p) = Inl e \<longrightarrow> \<not> snd (simple_fix_file w p))
   \<and> (snd (smart_fix_try w p) = Inl e \<longrightarrow> \<not> snd (smart_fix_file w p))
   \<and> (read_file w p = Inr c \<and> simple_fix c = c \<longrightarrow> \<not> snd (simple_fix_file w p))
   \<and> (read_file w p = Inr c \<and> smart_fix p c = c \<longrightarrow> \<not> snd (smart_fix_file w p))
   \<and> (\<exists>evs. log (simple_main glob w) = log w @ evs @
         [Summary (length (filter (\<lambda>p. snd (simple_fix_file w p)) (files_to_fix glob simple_patterns))),
          Verifying, Typecheck])
   \<and> (\<exists>evs. log (smart_main glob w) = log w @ evs @
         [Summary (length (filter (\<lambda>p. snd (smart_fix_file w p)) (files_to_fix glob smart_patterns))),
          Verifying, Typecheck])"
proof -
  have iff: "snd (fix_file_of repair announce w p) \<longleftrightarrow>
      (\<exists>c w'. read_file w p = Inr c \<and> repair p c \<noteq> c \<and> write_file w p (repair p c) = Inr w')"
    for repair announce
    by (auto simp: fix_file_of_cases read_file_def write_file_def split: option.splits if_splits)
  have wr: "snd (fix_file_of repair announce w p) \<longrightarrow>
      writes (fst (fix_file_of repair announce w p)) = writes w @ [p]" for repair announce
    by (auto simp: fix_file_of_cases split: option.splits if_splits)
  have err: "snd (fix_try_of repair announce w p) = Inl e \<longrightarrow> \<not> snd (fix_file_of repair announce w p)"
    for repair announce
    by (auto simp: fix_file_of_def split: prod.splits sum.splits)
  have same: "read_file w p = Inr c \<and> repair p c = c \<longrightarrow> \<not> snd (fix_file_of repair announce w p)"
    for repair announce
    by (auto simp: fix_file_of_cases read_file_def split: option.splits if_splits)
  note m1 = main_shape[OF simple_main_unfold[unfolded simple_fix_file_of] distinct_files_to_fix, of p glob w p e]
  note m2 = main_shape[OF smart_main_unfold[unfolded smart_fix_file_of] distinct_files_to_fix, of p glob w p e]
  show ?thesis
    unfolding simple_fix_file_of simple_fix_try_of smart_fix_file_of smart_fix_try_of
    using iff[of "\<lambda>p. simple_fix" True] iff[of smart_fix False]
      wr[of "\<lambda>p. simple_fix" True] wr[of smart_fix False]
      err[of "\<lambda>p. simple_fix" True] err[of smart_fix False]
      same[of "\<lambda>p. simple_fix" True] same[of smart_fix False]
      m1 m2
    by (intro conjI) (simp_all add: simple_fix_file_of smart_fix_file_of)
qed

theorem fix_file_true_only_when_written_witness:
  "snd (simple_fix_try demo_world ''src/a.ts'') = Inl ReadFailed
   \<and> \<not> snd (simple_fix_file demo_world ''src/a.ts'')
   \<and> snd (smart_fix_try demo_world ''src/a.ts'') = Inl ReadFailed
   \<and> \<not> snd (smart_fix_file demo_world ''src/a.ts'')
   \<and> read_file demo_world ''src/c.d.ts'' = Inr ''const a = 1;''
   \<and> simple_fix ''const a = 1;'' = ''const a = 1;''
   \<and> smart_fix ''src/c.d.ts'' ''const a = 1;'' = ''const a = 1;''
   \<and> \<not> snd (simple_fix_file demo_world ''src/c.d.ts'')
   \<and> \<not> snd (smart_fix_file demo_world ''src/c.d.ts'')
   \<and> snd (simple_fix_file demo_world ''src/b.ts'')
   \<and> writes (fst (simple_fix_file demo_world ''src/b.ts'')) = writes demo_world @ [''src/b.ts'']
   \<and> snd (smart_fix_file demo_world ''src/b.ts'')
   \<and> writes (fst (smart_fix_file demo_world ''src/b.ts'')) = writes demo_world @ [''src/b.ts'']"
proof -
  have a: "snd (simple_fix_try demo_world ''src/a.ts'') = Inl ReadFailed" by code_simp
  have b: "snd (smart_fix_try demo_world ''src/a.ts'') = Inl ReadFailed" by code_simp
  have r: "read_file demo_world ''src/c.d.ts'' = Inr ''const a = 1;''" by code_simp
  have c: "simple_fix ''const a = 1;'' = ''const a = 1;''" by code_simp
  have d: "smart_fix ''src/c.d.ts'' ''const a = 1;'' = ''const a = 1;''" by code_simp
  have e: "snd (simple_fix_file demo_world ''src/b.ts'')" by code_simp
  have f: "snd (smart_fix_file demo_world ''src/b.ts'')" by code_simp
  note t1 = fix_file_true_only_when_written[where w = demo_world and p = "''src/a.ts''"
      and e = ReadFailed and c = "[]" and glob = demo_glob]
  note t2 = fix_file_true_only_when_written[where w = demo_world and p = "''src/c.d.ts''"
      and e = ReadFailed and c = "''const a = 1;''" and glob = demo_glob]
  note t3 = fix_file_true_only_when_written[where w = demo_world and p = "''src/b.ts''"
      and e = ReadFailed and c = "[]" and glob = demo_glob]
  have 1: "\<not> snd (simple_fix_file demo_world ''src/a.ts'')" using t1 a by blast
  have 2: "\<not> snd (smart_fix_file demo_world ''src/a.ts'')" using t1 b by blast
  have 3: "\<not> snd (simple_fix_file demo_world ''src/c.d.ts'')" using t2 r c by blast
  have 4: "\<not> snd (smart_fix_file demo_world ''src/c.d.ts'')" using t2 r d by blast
  have 5: "writes (fst (simple_fix_file demo_world ''src/b.ts'')) = writes demo_world @ [''src/b.ts'']"
    using t3 e by blast
  have 6: "writes (fst (smart_fix_file demo_world ''src/b.ts'')) = writes demo_world @ [''src/b.ts'']"
    using t3 f by blast
  show ?thesis using a b r c d e f 1 2 3 4 5 6 by simp
qed

end
